theory Spec2Isabelle
  imports Main
begin

section \<open>Data model of the solver (code.cpp)\<close>

text \<open>
  \<^verbatim>\<open>struct Literal { int variable; bool negation; }\<close>: a variable with a polarity;
  \<open>negation = True\<close> is the negated variable.
\<close>

record Literal =
  variable :: int
  negation :: bool

text \<open>\<^verbatim>\<open>Literal::neg\<close> flips the polarity and keeps the variable.\<close>

definition neg :: "Literal \<Rightarrow> Literal" where
  "neg l = \<lparr>variable = variable l, negation = \<not> negation l\<rparr>"

text \<open>\<^verbatim>\<open>struct Clause { vector<Literal> literals; }\<close>\<close>

record Clause =
  literals :: "Literal list"

text \<open>
  \<^verbatim>\<open>struct Formula { vector<Clause> clauses; set<int> variables; }\<close>.
  The constructor walks every literal of every clause and inserts its variable.
\<close>

record Formula =
  clauses :: "Clause list"
  variables :: "int set"

definition insert_clause_variables :: "Clause \<Rightarrow> int set \<Rightarrow> int set" where
  "insert_clause_variables c vs = fold (\<lambda>lit acc. insert (variable lit) acc) (literals c) vs"

definition mk_Formula :: "Clause list \<Rightarrow> Formula" where
  "mk_Formula cls = \<lparr>clauses = cls, variables = fold insert_clause_variables cls {}\<rparr>"

definition get_variables :: "Formula \<Rightarrow> int set" where
  "get_variables formula = variables formula"

text \<open>
  \<^verbatim>\<open>struct Assignment { bool value; optional<Clause> antecedent; int dl; }\<close>: one trail
  entry. The fields carry the prefix \<open>a_\<close> because \<open>dl\<close> is also a member of the trail.
\<close>

record Assignment =
  a_value :: bool
  a_antecedent :: "Clause option"
  a_dl :: int

text \<open>
  \<^verbatim>\<open>class Assignments { unordered_map<int, Assignment> assignments; int dl; }\<close>: the
  trail, a map from variables to entries, and the current decision level. The constructor
  starts with no entry at level 0.
\<close>

record Assignments =
  assignments :: "int \<rightharpoonup> Assignment"
  dl :: int

definition new_Assignments :: Assignments where
  "new_Assignments = \<lparr>assignments = Map.empty, dl = 0\<rparr>"

text \<open>
  \<^verbatim>\<open>Assignments::value\<close>: a literal whose variable has no entry is false; otherwise the
  stored value, negated for a negative literal.
\<close>

definition value_asg :: "Assignments \<Rightarrow> Literal \<Rightarrow> bool" where
  "value_asg A literal =
     (case assignments A (variable literal) of
        None \<Rightarrow> False
      | Some e \<Rightarrow> (if negation literal then \<not> a_value e else a_value e))"

text \<open>\<^verbatim>\<open>Assignments::assign\<close> writes the entry at the current decision level.\<close>

definition assign :: "Assignments \<Rightarrow> int \<Rightarrow> bool \<Rightarrow> Clause option \<Rightarrow> Assignments" where
  "assign A var val ante =
     A\<lparr>assignments := (assignments A)(var \<mapsto> \<lparr>a_value = val, a_antecedent = ante, a_dl = dl A\<rparr>)\<rparr>"

definition unassign :: "Assignments \<Rightarrow> int \<Rightarrow> Assignments" where
  "unassign A var = A\<lparr>assignments := (assignments A)(var := None)\<rparr>"

text \<open>
  \<^verbatim>\<open>Assignments::satisfy\<close>: both loops leave at the first hit, the inner one at the
  first true literal, the outer one at the first clause without one.
\<close>

primrec some_literal_true :: "Assignments \<Rightarrow> Literal list \<Rightarrow> bool" where
  "some_literal_true A [] = False"
| "some_literal_true A (lit # lits) = (if value_asg A lit then True else some_literal_true A lits)"

primrec satisfy_clauses :: "Assignments \<Rightarrow> Clause list \<Rightarrow> bool" where
  "satisfy_clauses A [] = True"
| "satisfy_clauses A (c # cs) =
     (if \<not> some_literal_true A (literals c) then False else satisfy_clauses A cs)"

definition satisfy :: "Assignments \<Rightarrow> Formula \<Rightarrow> bool" where
  "satisfy A formula = satisfy_clauses A (clauses formula)"

text \<open>\<^verbatim>\<open>Assignments::size\<close>: the number of entries of the map.\<close>

definition size_asg :: "Assignments \<Rightarrow> nat" where
  "size_asg A = card (dom (assignments A))"

definition all_variables_assigned :: "Formula \<Rightarrow> Assignments \<Rightarrow> bool" where
  "all_variables_assigned formula A = (card (get_variables formula) = size_asg A)"

text \<open>
  \<^verbatim>\<open>backtrack\<close> collects the variables whose entry has a level above \<open>b\<close> and erases
  each of them. The order in which the hash map is walked does not reach the result: what
  is left is the map without the entries above \<open>b\<close>. The level counter is not touched.
\<close>

definition to_remove :: "Assignments \<Rightarrow> int \<Rightarrow> int set" where
  "to_remove A b = {var. case assignments A var of None \<Rightarrow> False | Some e \<Rightarrow> a_dl e > b}"

definition backtrack :: "Assignments \<Rightarrow> int \<Rightarrow> Assignments" where
  "backtrack A b =
     A\<lparr>assignments := (\<lambda>var. if var \<in> to_remove A b then None else assignments A var)\<rparr>"

text \<open>
  \<^verbatim>\<open>conflict_analysis\<close>: at level 0 the sentinel \<open>-1\<close>, otherwise one level down; the
  clause handed back is the conflicting clause.
\<close>

definition conflict_analysis :: "Clause \<Rightarrow> Assignments \<Rightarrow> int \<times> Clause" where
  "conflict_analysis clause A =
     (if dl A = 0 then (- 1, clause)
      else (let learned_clause = clause; decision_level = dl A - 1
            in (decision_level, learned_clause)))"

text \<open>
  \<^verbatim>\<open>pick_branching_variable\<close> lists the variables of the formula without an entry,
  draws an index into the list and a truth value from a fresh random generator, and
  returns the variable at the index with the value. Every element of the list and both
  values can come out, so the model is the set of possible results. With an empty list
  the source indexes an empty vector; the model has no result there.
\<close>

definition unassigned_vars :: "Formula \<Rightarrow> Assignments \<Rightarrow> int list" where
  "unassigned_vars formula A =
     filter (\<lambda>var. assignments A var = None) (sorted_list_of_set (get_variables formula))"

definition pick_branching_variable :: "Formula \<Rightarrow> Assignments \<Rightarrow> (int \<times> bool) set" where
  "pick_branching_variable formula A = set (unassigned_vars formula A) \<times> {False, True}"

text \<open>
  \<^verbatim>\<open>unit_propagation\<close>, innermost loop: the literals of one clause. A literal without
  an entry is remembered (the last one wins), a true literal ends the loop with
  \<open>clause_satisfied\<close>, a false one is counted. The result is
  \<open>(false_count, unassigned_literal, clause_satisfied)\<close>.
\<close>

fun scan_literals ::
  "Assignments \<Rightarrow> Literal list \<Rightarrow> nat \<Rightarrow> Literal option \<Rightarrow> nat \<times> Literal option \<times> bool" where
  "scan_literals A [] false_count unassigned_literal = (false_count, unassigned_literal, False)"
| "scan_literals A (literal # rest) false_count unassigned_literal =
     (if assignments A (variable literal) = None
        then scan_literals A rest false_count (Some literal)
      else if value_asg A literal
        then (false_count, unassigned_literal, True)
      else scan_literals A rest (false_count + 1) unassigned_literal)"

text \<open>
  One pass over the clauses. The result is the conflicting clause when the pass returns
  from the function, the trail, and the flag \<open>finish\<close>. The source compares the
  \<^verbatim>\<open>int\<close> counter with \<^verbatim>\<open>size() - 1\<close> in \<^verbatim>\<open>size_t\<close>; for an empty clause
  that is the largest \<^verbatim>\<open>size_t\<close>, which the counter never equals, as it never equals
  \<open>-1\<close> here.
\<close>

fun scan_clauses ::
  "Clause list \<Rightarrow> Assignments \<Rightarrow> bool \<Rightarrow> Clause option \<times> Assignments \<times> bool" where
  "scan_clauses [] A finish = (None, A, finish)"
| "scan_clauses (clause # rest) A finish =
     (case scan_literals A (literals clause) 0 None of
        (false_count, unassigned_literal, clause_satisfied) \<Rightarrow>
          if clause_satisfied then scan_clauses rest A finish
          else (case unassigned_literal of
                  Some u \<Rightarrow>
                    if int false_count = int (length (literals clause)) - 1
                      then scan_clauses rest
                             (assign A (variable u) (\<not> negation u) (Some clause)) False
                    else if false_count = length (literals clause)
                      then (Some clause, A, finish)
                    else scan_clauses rest A finish
                | None \<Rightarrow>
                    if false_count = length (literals clause)
                      then (Some clause, A, finish)
                    else scan_clauses rest A finish))"

text \<open>
  The while loop of \<^verbatim>\<open>unit_propagation\<close> repeats the pass until one sets no
  entry. A pass that does not finish gives an entry to a variable of the clauses that
  had none, so the number of such variables is a measure of the loop, established first.
\<close>

definition clause_vars :: "Clause list \<Rightarrow> int set" where
  "clause_vars cs = (\<Union>c \<in> set cs. variable ` set (literals c))"

lemma scan_literals_unassigned:
  "scan_literals A ls fc ul = (fc', Some u, sat) \<Longrightarrow>
     ul = Some u \<or> (u \<in> set ls \<and> assignments A (variable u) = None)"
  by (induction ls arbitrary: fc ul) (auto split: if_splits)

lemma scan_clauses_False:
  "scan_clauses cs A False = (r, A', fin') \<Longrightarrow> fin' = False"
  by (induction cs arbitrary: A) (auto split: prod.splits option.splits if_splits)

lemma dom_assign: "dom (assignments (assign A v b a)) = insert v (dom (assignments A))"
  by (simp add: assign_def)

lemma dl_assign: "dl (assign A v b a) = dl A"
  by (simp add: assign_def)

lemma scan_clauses_dom:
  "scan_clauses cs A fin = (r, A', fin') \<Longrightarrow>
     dom (assignments A) \<subseteq> dom (assignments A') \<and>
     dom (assignments A') \<subseteq> dom (assignments A) \<union> clause_vars cs \<and>
     dl A' = dl A"
proof (induction cs arbitrary: A fin)
  case Nil
  then show ?case by simp
next
  case (Cons c cs)
  obtain fc ul sat where sl: "scan_literals A (literals c) 0 None = (fc, ul, sat)"
    by (cases "scan_literals A (literals c) 0 None") auto
  have cv: "clause_vars (c # cs) = variable ` set (literals c) \<union> clause_vars cs"
    by (simp add: clause_vars_def)
  show ?case
  proof (cases "\<not> sat \<and> ul \<noteq> None \<and> int fc = int (length (literals c)) - 1")
    case True
    then obtain u where u: "ul = Some u" by auto
    from scan_literals_unassigned[OF sl[unfolded u]]
    have uin: "u \<in> set (literals c)" by simp
    from True u sl Cons.prems
    have "scan_clauses cs (assign A (variable u) (\<not> negation u) (Some c)) False = (r, A', fin')"
      by simp
    from Cons.IH[OF this] uin show ?thesis
      unfolding cv by (auto simp: dom_assign dl_assign)
  next
    case False
    with sl Cons.prems
    have "scan_clauses cs A fin = (r, A', fin') \<or> (r = Some c \<and> A' = A \<and> fin' = fin)"
      by (auto split: option.splits if_splits)
    then show ?thesis
    proof
      assume "scan_clauses cs A fin = (r, A', fin')"
      from Cons.IH[OF this] show ?thesis unfolding cv by auto
    qed auto
  qed
qed

lemma scan_clauses_progress:
  "scan_clauses cs A True = (r, A', False) \<Longrightarrow> dom (assignments A) \<subset> dom (assignments A')"
proof (induction cs arbitrary: A)
  case Nil
  then show ?case by simp
next
  case (Cons c cs)
  obtain fc ul sat where sl: "scan_literals A (literals c) 0 None = (fc, ul, sat)"
    by (cases "scan_literals A (literals c) 0 None") auto
  show ?case
  proof (cases "\<not> sat \<and> ul \<noteq> None \<and> int fc = int (length (literals c)) - 1")
    case True
    then obtain u where u: "ul = Some u" by auto
    from scan_literals_unassigned[OF sl[unfolded u]]
    have un: "assignments A (variable u) = None" by simp
    from True u sl Cons.prems
    have "scan_clauses cs (assign A (variable u) (\<not> negation u) (Some c)) False = (r, A', False)"
      by simp
    from scan_clauses_dom[OF this]
    have "insert (variable u) (dom (assignments A)) \<subseteq> dom (assignments A')"
      by (simp add: dom_assign)
    moreover from un have "variable u \<notin> dom (assignments A)" by auto
    ultimately show ?thesis by blast
  next
    case False
    with sl Cons.prems
    have "scan_clauses cs A True = (r, A', False)"
      by (auto split: option.splits if_splits)
    from Cons.IH[OF this] show ?thesis .
  qed
qed

lemma finite_clause_vars: "finite (clause_vars cs)"
  by (simp add: clause_vars_def)

lemma scan_clauses_measure:
  assumes "scan_clauses cs A True = (None, A', False)"
  shows "card (clause_vars cs - dom (assignments A')) < card (clause_vars cs - dom (assignments A))"
proof -
  from scan_clauses_progress[OF assms] scan_clauses_dom[OF assms]
  have "clause_vars cs - dom (assignments A') \<subset> clause_vars cs - dom (assignments A)"
    by blast
  then show ?thesis
    by (intro psubset_card_mono) (auto simp: finite_clause_vars)
qed

text \<open>
  \<^verbatim>\<open>unit_propagation\<close> returns the pair of the source, \<open>("conflict", clause)\<close> or
  \<open>("unresolved", nullopt)\<close>, and the trail it has extended in place.
\<close>

function unit_propagation ::
  "Formula \<Rightarrow> Assignments \<Rightarrow> (string \<times> Clause option) \<times> Assignments" where
  "unit_propagation formula A =
     (case scan_clauses (clauses formula) A True of
        (Some clause, A', finish) \<Rightarrow> ((''conflict'', Some clause), A')
      | (None, A', finish) \<Rightarrow>
          if finish then ((''unresolved'', None), A') else unit_propagation formula A')"
  by pat_completeness auto
termination
proof (relation "measure (\<lambda>(formula, A). card (clause_vars (clauses formula) - dom (assignments A)))",
    goal_cases)
  case 1
  show ?case by simp
next
  case (2 formula A x x2 A' finish)
  then have "scan_clauses (clauses formula) A True = (None, A', False)"
    by (metis (full_types))
  from scan_clauses_measure[OF this] show ?case by simp
qed

declare unit_propagation.simps [simp del]

lemma unit_propagation_dom_dl:
  "unit_propagation formula A = (r, A') \<Longrightarrow>
     dom (assignments A) \<subseteq> dom (assignments A') \<and>
     dom (assignments A') \<subseteq> dom (assignments A) \<union> clause_vars (clauses formula) \<and>
     dl A' = dl A"
proof (induction formula A rule: unit_propagation.induct)
  case (1 formula A)
  obtain c B fin where sc: "scan_clauses (clauses formula) A True = (c, B, fin)"
    by (cases "scan_clauses (clauses formula) A True") auto
  note d = scan_clauses_dom[OF sc]
  show ?case
  proof (cases "c = None \<and> \<not> fin")
    case True
    with sc "1.prems" have "unit_propagation formula B = (r, A')"
      by (simp add: unit_propagation.simps[of formula A])
    then have "dom (assignments B) \<subseteq> dom (assignments A') \<and>
       dom (assignments A') \<subseteq> dom (assignments B) \<union> clause_vars (clauses formula) \<and>
       dl A' = dl B"
      using "1.IH"[of c "(B, fin)" B fin] sc True by simp
    with d show ?thesis
      by (intro conjI) (blast, blast, simp)
  next
    case False
    with sc "1.prems" have "A' = B"
      by (auto simp: unit_propagation.simps[of formula A] split: option.splits if_splits)
    with d show ?thesis by simp
  qed
qed

text \<open>
  The inner \<^verbatim>\<open>while (true)\<close> of \<^verbatim>\<open>cdcl_solve\<close>: propagate; without a conflict
  leave the loop; with one, analyse it, return \<^verbatim>\<open>nullopt\<close> from the solver when the
  level is negative, otherwise append the learned clause to the formula, backtrack and set
  the level. \<^verbatim>\<open>clause.value()\<close> throws on an empty optional. The result says how the
  loop was left and carries the formula and the trail, both changed in place by the
  source. The loop ends because every round lowers the level, which is at least 1 when a
  round goes on.
\<close>

datatype loop_exit = Break | Return_nullopt | Bad_optional_access

function propagate_loop :: "Formula \<Rightarrow> Assignments \<Rightarrow> loop_exit \<times> Formula \<times> Assignments" where
  "propagate_loop formula A =
     (case unit_propagation formula A of
        ((reason, clause), A') \<Rightarrow>
          if reason \<noteq> ''conflict'' then (Break, formula, A')
          else (case clause of
                  None \<Rightarrow> (Bad_optional_access, formula, A')
                | Some c \<Rightarrow>
                    (case conflict_analysis c A' of
                       (b, learned_clause) \<Rightarrow>
                         if b < 0 then (Return_nullopt, formula, A')
                         else propagate_loop
                                (formula\<lparr>clauses := clauses formula @ [learned_clause]\<rparr>)
                                ((backtrack A' b)\<lparr>dl := b\<rparr>))))"
  by pat_completeness auto
termination
proof (relation "measure (\<lambda>(formula, A). nat (dl A))", goal_cases)
  case 1
  show ?case by simp
next
  case (2 formula A x A' reason clause c b learned)
  then have up: "unit_propagation formula A = ((reason, clause), A')"
    and ca: "conflict_analysis c A' = (b, learned)" and b: "\<not> b < 0"
    by simp_all
  from unit_propagation_dom_dl[OF up] have "dl A' = dl A" by simp
  with ca b have "b = dl A - 1" "0 \<le> b"
    by (auto simp: conflict_analysis_def Let_def split: if_splits)
  then show ?case by simp
qed

declare propagate_loop.simps [simp del]

text \<open>
  The outer loop of \<^verbatim>\<open>cdcl_solve\<close>, as the relation between the state at the head of
  the loop and what the solver returns from there, with the formula it leaves behind. The
  branching is a parameter: \<open>pick formula A\<close> is the set of pairs the heuristic may
  return. The source's \<^verbatim>\<open>int\<close> levels are unbounded integers here: a level moves
  by one with each decision and each conflict, and the model does not follow it to the
  machine bounds. A run that never leaves the loop is related to no result.
\<close>

datatype verdict = Returned "Assignments option" | Thrown_bad_optional_access

type_synonym branching = "Formula \<Rightarrow> Assignments \<Rightarrow> (int \<times> bool) set"

inductive cdcl_loop :: "branching \<Rightarrow> Formula \<Rightarrow> Assignments \<Rightarrow> verdict \<times> Formula \<Rightarrow> bool"
  for pick :: branching where
  all_assigned:
    "all_variables_assigned formula A \<Longrightarrow>
       cdcl_loop pick formula A (Returned (Some A), formula)"
| decide_break:
    "\<not> all_variables_assigned formula A \<Longrightarrow>
     (var, val) \<in> pick formula A \<Longrightarrow>
     propagate_loop formula (assign (A\<lparr>dl := dl A + 1\<rparr>) var val None) = (Break, formula', A') \<Longrightarrow>
     cdcl_loop pick formula' A' result \<Longrightarrow>
       cdcl_loop pick formula A result"
| decide_nullopt:
    "\<not> all_variables_assigned formula A \<Longrightarrow>
     (var, val) \<in> pick formula A \<Longrightarrow>
     propagate_loop formula (assign (A\<lparr>dl := dl A + 1\<rparr>) var val None) = (Return_nullopt, formula', A') \<Longrightarrow>
       cdcl_loop pick formula A (Returned None, formula')"
| decide_throw:
    "\<not> all_variables_assigned formula A \<Longrightarrow>
     (var, val) \<in> pick formula A \<Longrightarrow>
     propagate_loop formula (assign (A\<lparr>dl := dl A + 1\<rparr>) var val None) = (Bad_optional_access, formula', A') \<Longrightarrow>
       cdcl_loop pick formula A (Thrown_bad_optional_access, formula')"

code_pred cdcl_loop .

text \<open>
  \<^verbatim>\<open>cdcl_solve\<close>: a conflict in the first propagation returns \<^verbatim>\<open>nullopt\<close> at once;
  otherwise the loop runs from the propagated trail.
\<close>

definition cdcl_solve :: "branching \<Rightarrow> Formula \<Rightarrow> verdict \<times> Formula \<Rightarrow> bool" where
  "cdcl_solve pick formula result =
     (case unit_propagation formula new_Assignments of
        ((reason, clause), A) \<Rightarrow>
          if reason = ''conflict'' then result = (Returned None, formula)
          else cdcl_loop pick formula A result)"

text \<open>
  \<^verbatim>\<open>parse_dimacs_cnf\<close> turns a nonzero token \<open>lit\<close> into
  \<^verbatim>\<open>Literal(abs(lit), lit < 0)\<close>; a clause is the literals up to the next \<open>0\<close>.
\<close>

definition dimacs_literal :: "int \<Rightarrow> Literal" where
  "dimacs_literal lit = \<lparr>variable = \<bar>lit\<bar>, negation = (lit < 0)\<rparr>"

definition dimacs_clause :: "int list \<Rightarrow> Clause" where
  "dimacs_clause lits = \<lparr>literals = map dimacs_literal lits\<rparr>"

text \<open>
  The vocabulary of the properties. A literal is assigned when its variable has an entry.
  A clause is fully falsified when every literal is assigned and false. A clause is unit
  when exactly one position of its literal sequence is unassigned and every assigned
  literal is false.
\<close>

definition is_assigned :: "Assignments \<Rightarrow> Literal \<Rightarrow> bool" where
  "is_assigned A l = (assignments A (variable l) \<noteq> None)"

definition fully_falsified :: "Assignments \<Rightarrow> Clause \<Rightarrow> bool" where
  "fully_falsified A c = list_all (\<lambda>l. is_assigned A l \<and> \<not> value_asg A l) (literals c)"

definition unit_clause :: "Assignments \<Rightarrow> Clause \<Rightarrow> bool" where
  "unit_clause A c =
     (length (filter (\<lambda>l. \<not> is_assigned A l) (literals c)) = 1 \<and>
      list_all (\<lambda>l. \<not> is_assigned A l \<or> \<not> value_asg A l) (literals c))"

text \<open>A branching heuristic that is a function of the formula and the trail.\<close>

definition fixed_heuristic :: "(Formula \<Rightarrow> Assignments \<Rightarrow> int \<times> bool) \<Rightarrow> branching" where
  "fixed_heuristic h = (\<lambda>formula A. {h formula A})"

text \<open>No clause of the formula is fully falsified under the trail.\<close>

definition no_conflict :: "Formula \<Rightarrow> Assignments \<Rightarrow> bool" where
  "no_conflict formula A = list_all (\<lambda>c. \<not> fully_falsified A c) (clauses formula)"

text \<open>
  A formula on which the solver decides, meets a conflict, learns and backtracks:
  \<open>(1 \<or> 2) \<and> (1 \<or> \<not>2)\<close>, the formula after the conflicting clause has been learned, the
  trail with 1 true at level 1, and its two extensions at level 2, with 2 false and with
  2 true.
\<close>

definition example_formula :: Formula where
  "example_formula = mk_Formula [dimacs_clause [1, 2], dimacs_clause [1, - 2]]"

definition example_learned :: Formula where
  "example_learned = example_formula\<lparr>clauses := clauses example_formula @ [dimacs_clause [1, - 2]]\<rparr>"

definition example_trail1 :: Assignments where
  "example_trail1 = assign (new_Assignments\<lparr>dl := 1\<rparr>) 1 True None"

definition example_trail2 :: Assignments where
  "example_trail2 = assign (example_trail1\<lparr>dl := 2\<rparr>) 2 False None"

definition example_trail3 :: Assignments where
  "example_trail3 = assign (example_trail1\<lparr>dl := 2\<rparr>) 2 True None"

text \<open>
  The walk of \<^verbatim>\<open>backtrack\<close> over the hash map. The language does not fix the order in
  which an \<^verbatim>\<open>unordered_map\<close> is traversed: \<open>hash_walk A order\<close> says that \<open>order\<close>
  visits every key of the trail once. The first loop of \<^verbatim>\<open>backtrack\<close> pushes the
  visited keys whose level is above \<open>b\<close> onto \<^verbatim>\<open>to_remove\<close>, the second erases them
  in that order with \<^verbatim>\<open>unassign\<close>.
\<close>

definition hash_walk :: "Assignments \<Rightarrow> int list \<Rightarrow> bool" where
  "hash_walk A order = (distinct order \<and> set order = dom (assignments A))"

definition collect_to_remove :: "Assignments \<Rightarrow> int \<Rightarrow> int list \<Rightarrow> int list" where
  "collect_to_remove A b order =
     filter (\<lambda>var. case assignments A var of None \<Rightarrow> False | Some e \<Rightarrow> a_dl e > b) order"

definition backtrack_in_order :: "Assignments \<Rightarrow> int \<Rightarrow> int list \<Rightarrow> Assignments" where
  "backtrack_in_order A b order =
     fold (\<lambda>var B. unassign B var) (collect_to_remove A b order) A"

text \<open>
  The solver step by step, with every choice the source leaves open made explicit: the
  pair returned by the branching heuristic and the order of the walk in \<^verbatim>\<open>backtrack\<close>.
  A configuration is the start of \<^verbatim>\<open>cdcl_solve\<close>, the head of the outer loop, the head
  of the inner loop, or the return with the verdict and the formula left behind. A run
  that never returns is an infinite sequence of steps.
\<close>

datatype config =
    Start Formula
  | Deciding Formula Assignments
  | Propagating Formula Assignments
  | Finished "verdict \<times> Formula"

inductive cdcl_step :: "branching \<Rightarrow> config \<Rightarrow> config \<Rightarrow> bool"
  for pick :: branching where
  start_conflict:
    "unit_propagation formula new_Assignments = ((reason, clause), A) \<Longrightarrow>
     reason = ''conflict'' \<Longrightarrow>
       cdcl_step pick (Start formula) (Finished (Returned None, formula))"
| start_loop:
    "unit_propagation formula new_Assignments = ((reason, clause), A) \<Longrightarrow>
     reason \<noteq> ''conflict'' \<Longrightarrow>
       cdcl_step pick (Start formula) (Deciding formula A)"
| return_assignments:
    "all_variables_assigned formula A \<Longrightarrow>
       cdcl_step pick (Deciding formula A) (Finished (Returned (Some A), formula))"
| decide:
    "\<not> all_variables_assigned formula A \<Longrightarrow>
     (var, val) \<in> pick formula A \<Longrightarrow>
       cdcl_step pick (Deciding formula A)
         (Propagating formula (assign (A\<lparr>dl := dl A + 1\<rparr>) var val None))"
| leave_inner:
    "unit_propagation formula A = ((reason, clause), A') \<Longrightarrow>
     reason \<noteq> ''conflict'' \<Longrightarrow>
       cdcl_step pick (Propagating formula A) (Deciding formula A')"
| throw:
    "unit_propagation formula A = ((''conflict'', None), A') \<Longrightarrow>
       cdcl_step pick (Propagating formula A) (Finished (Thrown_bad_optional_access, formula))"
| return_nullopt:
    "unit_propagation formula A = ((''conflict'', Some c), A') \<Longrightarrow>
     conflict_analysis c A' = (b, learned_clause) \<Longrightarrow>
     b < 0 \<Longrightarrow>
       cdcl_step pick (Propagating formula A) (Finished (Returned None, formula))"
| learn:
    "unit_propagation formula A = ((''conflict'', Some c), A') \<Longrightarrow>
     conflict_analysis c A' = (b, learned_clause) \<Longrightarrow>
     \<not> b < 0 \<Longrightarrow>
     hash_walk A' order \<Longrightarrow>
       cdcl_step pick (Propagating formula A)
         (Propagating (formula\<lparr>clauses := clauses formula @ [learned_clause]\<rparr>)
            ((backtrack_in_order A' b order)\<lparr>dl := b\<rparr>))"

code_pred cdcl_step .

text \<open>
  The configuration in which the inner loop is left, and what it means for a
  configuration to return a result in terms of \<open>cdcl_solve\<close>, \<open>cdcl_loop\<close> and
  \<open>propagate_loop\<close>; both connect the steps with the solver as a whole.
\<close>

fun exit_config :: "loop_exit \<Rightarrow> Formula \<Rightarrow> Assignments \<Rightarrow> config" where
  "exit_config Break formula A = Deciding formula A"
| "exit_config Return_nullopt formula A = Finished (Returned None, formula)"
| "exit_config Bad_optional_access formula A = Finished (Thrown_bad_optional_access, formula)"

fun config_returns :: "branching \<Rightarrow> config \<Rightarrow> verdict \<times> Formula \<Rightarrow> bool" where
  "config_returns pick (Start formula) r = cdcl_solve pick formula r"
| "config_returns pick (Deciding formula A) r = cdcl_loop pick formula A r"
| "config_returns pick (Propagating formula A) r =
     (case propagate_loop formula A of
        (Break, formula', A') \<Rightarrow> cdcl_loop pick formula' A' r
      | (Return_nullopt, formula', A') \<Rightarrow> r = (Returned None, formula')
      | (Bad_optional_access, formula', A') \<Rightarrow> r = (Thrown_bad_optional_access, formula'))"
| "config_returns pick (Finished r') r = (r = r')"

section \<open>The trail\<close>

text \<open>
  C8. A literal whose variable has no entry in the trail evaluates to false; a literal
  whose variable has an entry evaluates to the stored value, negated when the literal is
  negative.
\<close>

theorem value_unassigned_false_assigned_stored:
  "(assignments A (variable l) = None \<longrightarrow> value_asg A l = False) \<and>
   (\<forall>e. assignments A (variable l) = Some e \<longrightarrow>
        value_asg A l = (if negation l then \<not> a_value e else a_value e))"
  by (simp add: value_asg_def)

theorem value_unassigned_false_assigned_stored_witness:
  "assignments (assign new_Assignments 1 True None) (variable (dimacs_literal 2)) = None \<and>
   value_asg (assign new_Assignments 1 True None) (dimacs_literal 2) = False \<and>
   assignments (assign new_Assignments 1 True None) (variable (dimacs_literal (- 1))) =
     Some \<lparr>a_value = True, a_antecedent = None, a_dl = 0\<rparr> \<and>
   value_asg (assign new_Assignments 1 True None) (dimacs_literal (- 1)) = False"
  using value_unassigned_false_assigned_stored
    [of "assign new_Assignments 1 True None" "dimacs_literal 2"]
    value_unassigned_false_assigned_stored
    [of "assign new_Assignments 1 True None" "dimacs_literal (- 1)"]
  by (simp add: assign_def new_Assignments_def dimacs_literal_def)

text \<open>
  C10. For a literal whose variable is assigned, the value of the negated literal is the
  negation of the literal's value; for a literal whose variable is unassigned both values
  are false. So \<open>value (neg l) = (\<not> value l)\<close> holds exactly for assigned variables.
\<close>

theorem value_neg_iff_assigned:
  "(value_asg A (neg l) = (\<not> value_asg A l)) = (assignments A (variable l) \<noteq> None) \<and>
   (assignments A (variable l) = None \<longrightarrow> \<not> value_asg A l \<and> \<not> value_asg A (neg l))"
  by (auto simp: value_asg_def neg_def split: option.splits)

theorem value_neg_iff_assigned_witness:
  "assignments (assign new_Assignments 1 True None) (variable (dimacs_literal 2)) = None \<and>
   \<not> value_asg (assign new_Assignments 1 True None) (dimacs_literal 2) \<and>
   \<not> value_asg (assign new_Assignments 1 True None) (neg (dimacs_literal 2)) \<and>
   value_asg (assign new_Assignments 1 True None) (dimacs_literal 1) \<and>
   \<not> value_asg (assign new_Assignments 1 True None) (neg (dimacs_literal 1))"
  using value_neg_iff_assigned [of "assign new_Assignments 1 True None" "dimacs_literal 2"]
    value_neg_iff_assigned [of "assign new_Assignments 1 True None" "dimacs_literal 1"]
  by (simp add: assign_def new_Assignments_def dimacs_literal_def value_asg_def neg_def)

section \<open>Backtracking\<close>

lemma backtrack_lookup:
  "assignments (backtrack A b) var =
     (case assignments A var of None \<Rightarrow> None | Some e \<Rightarrow> if a_dl e > b then None else Some e)"
  by (simp add: backtrack_def to_remove_def split: option.splits)

text \<open>
  C6. After \<open>backtrack A b\<close> no entry has a decision level above \<open>b\<close>; every entry
  at a level of at most \<open>b\<close> is the entry it was (value, antecedent and level); a
  variable whose entry was above \<open>b\<close> has no entry at all; and no entry appears that
  was not there.
\<close>

theorem backtrack_correct:
  "(assignments (backtrack A b) var = Some e \<longrightarrow>
       a_dl e \<le> b \<and> assignments A var = Some e) \<and>
   (assignments A var = Some e \<and> a_dl e \<le> b \<longrightarrow>
       assignments (backtrack A b) var = Some e) \<and>
   (assignments A var = Some e \<and> a_dl e > b \<longrightarrow>
       assignments (backtrack A b) var = None \<and> var \<notin> dom (assignments (backtrack A b)))"
  by (auto simp: backtrack_lookup split: option.splits if_splits)

theorem backtrack_correct_witness:
  "assignments (backtrack (assign (assign new_Assignments 1 True None\<lparr>dl := 1\<rparr>) 2 False None) 0) 1
     = Some \<lparr>a_value = True, a_antecedent = None, a_dl = 0\<rparr> \<and>
   assignments (assign (assign new_Assignments 1 True None\<lparr>dl := 1\<rparr>) 2 False None) 2
     = Some \<lparr>a_value = False, a_antecedent = None, a_dl = 1\<rparr> \<and>
   assignments (backtrack (assign (assign new_Assignments 1 True None\<lparr>dl := 1\<rparr>) 2 False None) 0) 2
     = None \<and>
   2 \<notin> dom (assignments
     (backtrack (assign (assign new_Assignments 1 True None\<lparr>dl := 1\<rparr>) 2 False None) 0))"
proof -
  let ?A = "assign (assign new_Assignments 1 True None\<lparr>dl := 1\<rparr>) 2 False None"
  have e1: "assignments ?A 1 = Some \<lparr>a_value = True, a_antecedent = None, a_dl = 0\<rparr>"
    by (simp add: assign_def new_Assignments_def)
  have e2: "assignments ?A 2 = Some \<lparr>a_value = False, a_antecedent = None, a_dl = 1\<rparr>"
    by (simp add: assign_def new_Assignments_def)
  from backtrack_correct [of ?A 0 1 "\<lparr>a_value = True, a_antecedent = None, a_dl = 0\<rparr>"] e1
  have "assignments (backtrack ?A 0) 1 = Some \<lparr>a_value = True, a_antecedent = None, a_dl = 0\<rparr>"
    by simp
  moreover
  from backtrack_correct [of ?A 0 2 "\<lparr>a_value = False, a_antecedent = None, a_dl = 1\<rparr>"] e2
  have "assignments (backtrack ?A 0) 2 = None \<and> 2 \<notin> dom (assignments (backtrack ?A 0))"
    by simp
  ultimately show ?thesis using e2 by simp
qed

section \<open>Conflict analysis\<close>

text \<open>
  C4. At decision level 0 \<open>conflict_analysis\<close> returns the level \<open>-1\<close>; at any other
  level it returns the level below the current one together with the conflicting clause
  itself as the learned clause.
\<close>

theorem conflict_analysis_contract:
  "(dl A = 0 \<longrightarrow> fst (conflict_analysis c A) = - 1) \<and>
   (dl A \<noteq> 0 \<longrightarrow> conflict_analysis c A = (dl A - 1, c))"
  by (simp add: conflict_analysis_def)

theorem conflict_analysis_contract_witness:
  "dl new_Assignments = 0 \<and>
   fst (conflict_analysis (dimacs_clause [- 1]) new_Assignments) = - 1 \<and>
   dl (new_Assignments\<lparr>dl := 3\<rparr>) \<noteq> 0 \<and>
   conflict_analysis (dimacs_clause [- 1]) (new_Assignments\<lparr>dl := 3\<rparr>) = (2, dimacs_clause [- 1])"
  using conflict_analysis_contract [of new_Assignments "dimacs_clause [- 1]"]
    conflict_analysis_contract [of "new_Assignments\<lparr>dl := 3\<rparr>" "dimacs_clause [- 1]"]
  by (simp add: new_Assignments_def)

section \<open>Unit propagation\<close>

lemma value_asg_assigned: "value_asg A l \<Longrightarrow> is_assigned A l"
  by (auto simp: value_asg_def is_assigned_def split: option.splits)

lemma scan_literals_result:
  "scan_literals A ls fc ul = (fc', ul', sat) \<Longrightarrow>
     sat = (\<exists>l \<in> set ls. value_asg A l) \<and>
     (\<not> sat \<longrightarrow> fc' = fc + length (filter (is_assigned A) ls) \<and>
        ((ul' = None) = (ul = None \<and> (\<forall>l \<in> set ls. is_assigned A l))))"
proof (induction ls arbitrary: fc ul)
  case Nil
  then show ?case by auto
next
  case (Cons l ls)
  show ?case
  proof (cases "assignments A (variable l) = None")
    case True
    then have nv: "\<not> value_asg A l" "\<not> is_assigned A l"
      by (simp_all add: value_asg_def is_assigned_def)
    from True Cons.prems have "scan_literals A ls fc (Some l) = (fc', ul', sat)" by simp
    from Cons.IH[OF this] nv show ?thesis by auto
  next
    case False
    then have as: "is_assigned A l" by (simp add: is_assigned_def)
    show ?thesis
    proof (cases "value_asg A l")
      case True
      with False Cons.prems show ?thesis by (auto split: if_splits)
    next
      case nv: False
      with False Cons.prems have "scan_literals A ls (Suc fc) ul = (fc', ul', sat)"
        by (auto split: if_splits)
      from Cons.IH[OF this] nv as show ?thesis by auto
    qed
  qed
qed

lemma filter_split_length:
  "length (filter P xs) + length (filter (\<lambda>x. \<not> P x) xs) = length xs"
  by (induction xs) auto

lemma scan_literals_satisfied:
  assumes "scan_literals A (literals c) 0 None = (fc, ul, True)"
  shows "\<not> unit_clause A c \<and> \<not> fully_falsified A c"
proof -
  from scan_literals_result[OF assms] obtain l where "l \<in> set (literals c)" "value_asg A l"
    by auto
  then show ?thesis
    using value_asg_assigned[of A l]
    by (auto simp: unit_clause_def fully_falsified_def list_all_iff)
qed

lemma scan_literals_unsatisfied:
  assumes "scan_literals A (literals c) 0 None = (fc, ul, False)"
  shows "unit_clause A c = (ul \<noteq> None \<and> int fc = int (length (literals c)) - 1)"
    and "fully_falsified A c = (fc = length (literals c))"
proof -
  from scan_literals_result[OF assms]
  have nt: "\<forall>l \<in> set (literals c). \<not> value_asg A l"
    and fc: "fc = length (filter (is_assigned A) (literals c))"
    and ul: "(ul = None) = (\<forall>l \<in> set (literals c). is_assigned A l)"
    by auto
  have len: "fc + length (filter (\<lambda>l. \<not> is_assigned A l) (literals c)) = length (literals c)"
    unfolding fc by (rule filter_split_length)
  have all: "(\<forall>l \<in> set (literals c). is_assigned A l) =
      (length (filter (\<lambda>l. \<not> is_assigned A l) (literals c)) = 0)"
    by (auto simp: filter_empty_conv)
  show "unit_clause A c = (ul \<noteq> None \<and> int fc = int (length (literals c)) - 1)"
    using nt len ul all by (auto simp: unit_clause_def list_all_iff)
  show "fully_falsified A c = (fc = length (literals c))"
    using nt len all by (auto simp: fully_falsified_def list_all_iff)
qed

lemma scan_clauses_conflict:
  "scan_clauses cs A fin = (Some c, A', fin') \<Longrightarrow> c \<in> set cs \<and> fully_falsified A' c"
proof (induction cs arbitrary: A fin)
  case Nil
  then show ?case by simp
next
  case (Cons d cs)
  obtain fc ul sat where sl: "scan_literals A (literals d) 0 None = (fc, ul, sat)"
    by (cases "scan_literals A (literals d) 0 None") auto
  show ?case
  proof (cases "\<not> sat \<and> fc = length (literals d)")
    case True
    with sl have ff: "fully_falsified A d" by (simp add: scan_literals_unsatisfied(2))
    from True sl Cons.prems have "c = d \<and> A' = A"
      by (auto split: option.splits if_splits)
    with ff show ?thesis by simp
  next
    case False
    with sl Cons.prems have "\<exists>B fin2. scan_clauses cs B fin2 = (Some c, A', fin')"
      by (auto split: option.splits if_splits)
    with Cons.IH show ?thesis by auto
  qed
qed

lemma scan_clauses_fixed_point:
  "scan_clauses cs A fin = (None, A', True) \<Longrightarrow>
     A' = A \<and> (\<forall>c \<in> set cs. \<not> unit_clause A c \<and> \<not> fully_falsified A c)"
proof (induction cs arbitrary: fin)
  case Nil
  then show ?case by simp
next
  case (Cons d cs)
  obtain fc ul sat where sl: "scan_literals A (literals d) 0 None = (fc, ul, sat)"
    by (cases "scan_literals A (literals d) 0 None") auto
  show ?case
  proof (cases sat)
    case True
    with sl have sl': "scan_literals A (literals d) 0 None = (fc, ul, True)" by simp
    from True sl Cons.prems have "scan_clauses cs A fin = (None, A', True)" by simp
    from Cons.IH[OF this] scan_literals_satisfied[OF sl'] show ?thesis by simp
  next
    case False
    with sl have sl': "scan_literals A (literals d) 0 None = (fc, ul, False)" by simp
    note u = scan_literals_unsatisfied[OF sl']
    from False sl Cons.prems
    have "\<not> (ul \<noteq> None \<and> int fc = int (length (literals d)) - 1)"
      by (auto split: option.splits if_splits dest: scan_clauses_False)
    moreover from False sl Cons.prems have "fc \<noteq> length (literals d)"
      by (auto split: option.splits if_splits)
    moreover from False sl Cons.prems calculation have "scan_clauses cs A fin = (None, A', True)"
      by (auto split: option.splits if_splits)
    ultimately show ?thesis using Cons.IH u by auto
  qed
qed

lemma unit_propagation_result:
  "unit_propagation formula A = ((reason, clause), A') \<Longrightarrow>
     (reason = ''conflict'' \<and>
        (\<exists>c. clause = Some c \<and> c \<in> set (clauses formula) \<and> fully_falsified A' c)) \<or>
     (reason = ''unresolved'' \<and> clause = None \<and>
        (\<forall>c \<in> set (clauses formula). \<not> unit_clause A' c \<and> \<not> fully_falsified A' c))"
proof (induction formula A rule: unit_propagation.induct)
  case (1 formula A)
  obtain c B fin where sc: "scan_clauses (clauses formula) A True = (c, B, fin)"
    by (cases "scan_clauses (clauses formula) A True") auto
  show ?case
  proof (cases c)
    case (Some d)
    with sc "1.prems" have "reason = ''conflict''" "clause = Some d" "A' = B"
      by (simp_all add: unit_propagation.simps[of formula A])
    moreover from sc Some have "scan_clauses (clauses formula) A True = (Some d, B, fin)" by simp
    note scan_clauses_conflict[OF this]
    ultimately show ?thesis by simp
  next
    case None
    show ?thesis
    proof (cases fin)
      case True
      with None sc "1.prems" have "reason = ''unresolved''" "clause = None" "A' = B"
        by (simp_all add: unit_propagation.simps[of formula A])
      moreover from sc None True have "scan_clauses (clauses formula) A True = (None, B, True)"
        by simp
      note scan_clauses_fixed_point[OF this]
      ultimately show ?thesis by simp
    next
      case False
      with None sc "1.prems" have "unit_propagation formula B = ((reason, clause), A')"
        by (simp add: unit_propagation.simps[of formula A])
      then show ?thesis
        using "1.IH"[of c "(B, fin)" B fin] sc None False by simp
    qed
  qed
qed

text \<open>
  C3. \<open>unit_propagation\<close> returns \<open>("conflict", c)\<close> only for a clause \<open>c\<close> of the
  formula all of whose literals are assigned and false under the trail it returns; and it
  returns \<open>("unresolved", nullopt)\<close> only with a trail under which no clause of the formula
  is unit (exactly one unassigned position of the literal sequence, every other literal
  false) and none is fully falsified. It returns nothing but these two shapes.
\<close>

theorem unit_propagation_contract:
  "(unit_propagation formula A = ((''conflict'', Some c), A') \<longrightarrow>
      c \<in> set (clauses formula) \<and>
      (\<forall>l \<in> set (literals c). assignments A' (variable l) \<noteq> None \<and> \<not> value_asg A' l)) \<and>
   (unit_propagation formula A = ((''unresolved'', None), A') \<longrightarrow>
      (\<forall>d \<in> set (clauses formula). \<not> unit_clause A' d \<and> \<not> fully_falsified A' d)) \<and>
   ((\<exists>d B. unit_propagation formula A = ((''conflict'', Some d), B)) \<or>
    (\<exists>B. unit_propagation formula A = ((''unresolved'', None), B)))"
proof (intro conjI impI)
  assume "unit_propagation formula A = ((''conflict'', Some c), A')"
  from unit_propagation_result[OF this]
  have c: "c \<in> set (clauses formula)" and ff: "fully_falsified A' c" by simp_all
  from c show "c \<in> set (clauses formula)" .
  from ff show "\<forall>l \<in> set (literals c). assignments A' (variable l) \<noteq> None \<and> \<not> value_asg A' l"
    by (simp add: fully_falsified_def list_all_iff is_assigned_def)
next
  assume "unit_propagation formula A = ((''unresolved'', None), A')"
  from unit_propagation_result[OF this]
  show "\<forall>d \<in> set (clauses formula). \<not> unit_clause A' d \<and> \<not> fully_falsified A' d" by simp
next
  obtain reason clause B where up: "unit_propagation formula A = ((reason, clause), B)"
    by (cases "unit_propagation formula A") auto
  from unit_propagation_result[OF up] up
  show "(\<exists>d B. unit_propagation formula A = ((''conflict'', Some d), B)) \<or>
    (\<exists>B. unit_propagation formula A = ((''unresolved'', None), B))"
    by auto
qed

theorem unit_propagation_contract_witness:
  "unit_propagation (mk_Formula [dimacs_clause [1], dimacs_clause [- 1]]) new_Assignments =
     ((''conflict'', Some (dimacs_clause [- 1])),
      assign new_Assignments 1 True (Some (dimacs_clause [1]))) \<and>
   dimacs_clause [- 1] \<in> set (clauses (mk_Formula [dimacs_clause [1], dimacs_clause [- 1]])) \<and>
   assignments (assign new_Assignments 1 True (Some (dimacs_clause [1])))
     (variable (dimacs_literal (- 1))) \<noteq> None \<and>
   \<not> value_asg (assign new_Assignments 1 True (Some (dimacs_clause [1]))) (dimacs_literal (- 1)) \<and>
   unit_propagation
     (mk_Formula [dimacs_clause [1, 2], dimacs_clause [- 1, 3], dimacs_clause [- 2]])
     new_Assignments =
     ((''unresolved'', None),
      assign (assign (assign new_Assignments 2 False (Some (dimacs_clause [- 2])))
        1 True (Some (dimacs_clause [1, 2]))) 3 True (Some (dimacs_clause [- 1, 3]))) \<and>
   \<not> unit_clause
      (assign (assign (assign new_Assignments 2 False (Some (dimacs_clause [- 2])))
        1 True (Some (dimacs_clause [1, 2]))) 3 True (Some (dimacs_clause [- 1, 3])))
      (dimacs_clause [- 1, 3]) \<and>
   \<not> fully_falsified
      (assign (assign (assign new_Assignments 2 False (Some (dimacs_clause [- 2])))
        1 True (Some (dimacs_clause [1, 2]))) 3 True (Some (dimacs_clause [- 1, 3])))
      (dimacs_clause [- 1, 3])"
proof -
  let ?F1 = "mk_Formula [dimacs_clause [1], dimacs_clause [- 1]]"
  let ?A1 = "assign new_Assignments 1 True (Some (dimacs_clause [1]))"
  let ?F2 = "mk_Formula [dimacs_clause [1, 2], dimacs_clause [- 1, 3], dimacs_clause [- 2]]"
  let ?A2 = "assign (assign (assign new_Assignments 2 False (Some (dimacs_clause [- 2])))
        1 True (Some (dimacs_clause [1, 2]))) 3 True (Some (dimacs_clause [- 1, 3]))"
  have r1: "unit_propagation ?F1 new_Assignments = ((''conflict'', Some (dimacs_clause [- 1])), ?A1)"
    by (simp add: unit_propagation.simps mk_Formula_def new_Assignments_def assign_def
        value_asg_def dimacs_clause_def dimacs_literal_def)
  have r2: "unit_propagation ?F2 new_Assignments = ((''unresolved'', None), ?A2)"
    by (simp add: unit_propagation.simps mk_Formula_def new_Assignments_def assign_def
        value_asg_def dimacs_clause_def dimacs_literal_def)
  have m1: "dimacs_literal (- 1) \<in> set (literals (dimacs_clause [- 1]))"
    by (simp add: dimacs_clause_def)
  have m2: "dimacs_clause [- 1, 3] \<in> set (clauses ?F2)"
    by (simp add: mk_Formula_def)
  from unit_propagation_contract [of ?F1 new_Assignments "dimacs_clause [- 1]" ?A1] r1 m1
  have p1: "dimacs_clause [- 1] \<in> set (clauses ?F1) \<and>
      assignments ?A1 (variable (dimacs_literal (- 1))) \<noteq> None \<and>
      \<not> value_asg ?A1 (dimacs_literal (- 1))"
    by blast
  from unit_propagation_contract [of ?F2 new_Assignments _ ?A2] r2 m2
  have p2: "\<not> unit_clause ?A2 (dimacs_clause [- 1, 3]) \<and>
      \<not> fully_falsified ?A2 (dimacs_clause [- 1, 3])"
    by blast
  from r1 r2 p1 p2 show ?thesis by blast
qed

section \<open>The solver\<close>

subsection \<open>A worked run\<close>

lemmas example_defs = example_formula_def example_learned_def example_trail1_def
  example_trail2_def mk_Formula_def new_Assignments_def assign_def value_asg_def
  dimacs_clause_def dimacs_literal_def insert_clause_variables_def

lemma example_up0:
  "unit_propagation example_formula new_Assignments = ((''unresolved'', None), new_Assignments)"
  by (simp add: unit_propagation.simps example_defs)

lemma example_backtrack:
  "(backtrack (assign (assign (new_Assignments\<lparr>dl := 1\<rparr>) 1 False None) 2 True
      (Some (dimacs_clause [1, 2]))) 0)\<lparr>dl := 0\<rparr> = new_Assignments"
  by (simp add: backtrack_def to_remove_def example_defs fun_eq_iff)

lemma example_up1:
  "unit_propagation example_formula (assign (new_Assignments\<lparr>dl := 1\<rparr>) 1 False None) =
     ((''conflict'', Some (dimacs_clause [1, - 2])),
      assign (assign (new_Assignments\<lparr>dl := 1\<rparr>) 1 False None) 2 True (Some (dimacs_clause [1, 2])))"
  by (simp add: unit_propagation.simps example_defs)

lemma example_up2:
  "unit_propagation example_learned new_Assignments = ((''unresolved'', None), new_Assignments)"
  by (simp add: unit_propagation.simps example_defs)

lemma example_pl1:
  "propagate_loop example_formula (assign (new_Assignments\<lparr>dl := 1\<rparr>) 1 False None) =
     (Break, example_learned, new_Assignments)"
  apply (subst propagate_loop.simps)
  apply (simp add: example_up1 conflict_analysis_def dl_assign example_backtrack)
  apply (simp add: new_Assignments_def)
  apply (fold new_Assignments_def example_learned_def)
  apply (subst propagate_loop.simps)
  apply (simp add: example_up2)
  done

lemma example_up3:
  "unit_propagation example_learned (assign (new_Assignments\<lparr>dl := 1\<rparr>) 1 True None) =
     ((''unresolved'', None), example_trail1)"
  by (simp add: unit_propagation.simps example_defs)

lemma example_up4:
  "unit_propagation example_learned (assign (example_trail1\<lparr>dl := 2\<rparr>) 2 False None) =
     ((''unresolved'', None), example_trail2)"
  by (simp add: unit_propagation.simps example_defs)

lemma example_pl2:
  "propagate_loop example_learned (assign (new_Assignments\<lparr>dl := 1\<rparr>) 1 True None) =
     (Break, example_learned, example_trail1)"
  by (subst propagate_loop.simps) (simp add: example_up3)

lemma example_pl3:
  "propagate_loop example_learned (assign (example_trail1\<lparr>dl := 2\<rparr>) 2 False None) =
     (Break, example_learned, example_trail2)"
  by (subst propagate_loop.simps) (simp add: example_up4)

lemma example_variables:
  "variables example_formula = {1, 2}" "variables example_learned = {1, 2}"
  by (auto simp: example_defs)

lemma example_dom:
  "dom (assignments new_Assignments) = {}" "dom (assignments example_trail1) = {1}"
  "dom (assignments example_trail2) = {1, 2}"
  by (auto simp: example_defs)

lemma example_pick:
  "(1, False) \<in> pick_branching_variable example_formula new_Assignments"
  "(1, True) \<in> pick_branching_variable example_learned new_Assignments"
  "(2, False) \<in> pick_branching_variable example_learned example_trail1"
  by (simp_all add: pick_branching_variable_def unassigned_vars_def get_variables_def
      example_variables) (simp_all add: example_defs)

lemma example_not_all_assigned:
  "\<not> all_variables_assigned example_formula new_Assignments"
  "\<not> all_variables_assigned example_learned new_Assignments"
  "\<not> all_variables_assigned example_learned example_trail1"
  "all_variables_assigned example_learned example_trail2"
  by (simp_all add: all_variables_assigned_def get_variables_def size_asg_def
      example_variables example_dom)

lemma example_loop:
  "cdcl_loop pick_branching_variable example_formula new_Assignments
     (Returned (Some example_trail2), example_learned)"
proof -
  have dl0: "new_Assignments\<lparr>dl := dl new_Assignments + 1\<rparr> = new_Assignments\<lparr>dl := 1\<rparr>"
    by (simp add: new_Assignments_def)
  have dl1: "example_trail1\<lparr>dl := dl example_trail1 + 1\<rparr> = example_trail1\<lparr>dl := 2\<rparr>"
    by (simp add: example_defs)
  have "cdcl_loop pick_branching_variable example_learned example_trail2
     (Returned (Some example_trail2), example_learned)"
    by (rule cdcl_loop.all_assigned) (rule example_not_all_assigned(4))
  then have "cdcl_loop pick_branching_variable example_learned example_trail1
     (Returned (Some example_trail2), example_learned)"
    by (rule cdcl_loop.decide_break[where pick = pick_branching_variable, OF example_not_all_assigned(3) example_pick(3)
          example_pl3[folded dl1]])
  then have "cdcl_loop pick_branching_variable example_learned new_Assignments
     (Returned (Some example_trail2), example_learned)"
    by (rule cdcl_loop.decide_break[where pick = pick_branching_variable, OF example_not_all_assigned(2) example_pick(2)
          example_pl2[folded dl0]])
  then show ?thesis
    by (rule cdcl_loop.decide_break[where pick = pick_branching_variable, OF example_not_all_assigned(1) example_pick(1)
          example_pl1[folded dl0]])
qed

lemma example_run:
  "cdcl_solve pick_branching_variable example_formula
     (Returned (Some example_trail2), example_learned)"
  by (simp add: cdcl_solve_def example_up0 example_loop)

lemma example_up5:
  "unit_propagation example_formula (assign (new_Assignments\<lparr>dl := 1\<rparr>) 1 True None) =
     ((''unresolved'', None), example_trail1)"
  by (simp add: unit_propagation.simps example_defs)

lemma example_up6:
  "unit_propagation example_formula (assign (example_trail1\<lparr>dl := 2\<rparr>) 2 True None) =
     ((''unresolved'', None), example_trail3)"
  by (simp add: unit_propagation.simps example_defs example_trail3_def)

lemma example_pl5:
  "propagate_loop example_formula (assign (new_Assignments\<lparr>dl := 1\<rparr>) 1 True None) =
     (Break, example_formula, example_trail1)"
  by (subst propagate_loop.simps) (simp add: example_up5)

lemma example_pl6:
  "propagate_loop example_formula (assign (example_trail1\<lparr>dl := 2\<rparr>) 2 True None) =
     (Break, example_formula, example_trail3)"
  by (subst propagate_loop.simps) (simp add: example_up6)

lemma example_all_assigned3:
  "\<not> all_variables_assigned example_formula example_trail1"
  "all_variables_assigned example_formula example_trail3"
  by (simp_all add: all_variables_assigned_def get_variables_def size_asg_def
      example_variables example_dom) (simp add: example_defs example_trail3_def)

lemma example_run_true:
  assumes p1: "(1, True) \<in> pick example_formula new_Assignments"
    and p2: "(2, True) \<in> pick example_formula example_trail1"
  shows "cdcl_solve pick example_formula (Returned (Some example_trail3), example_formula)"
proof -
  have dl0: "new_Assignments\<lparr>dl := dl new_Assignments + 1\<rparr> = new_Assignments\<lparr>dl := 1\<rparr>"
    by (simp add: new_Assignments_def)
  have dl1: "example_trail1\<lparr>dl := dl example_trail1 + 1\<rparr> = example_trail1\<lparr>dl := 2\<rparr>"
    by (simp add: example_defs)
  have "cdcl_loop pick example_formula example_trail3
     (Returned (Some example_trail3), example_formula)"
    by (rule cdcl_loop.all_assigned) (rule example_all_assigned3(2))
  then have "cdcl_loop pick example_formula example_trail1
     (Returned (Some example_trail3), example_formula)"
    by (rule cdcl_loop.decide_break[where pick = pick, OF example_all_assigned3(1) p2
          example_pl6[folded dl1]])
  then have "cdcl_loop pick example_formula new_Assignments
     (Returned (Some example_trail3), example_formula)"
    by (rule cdcl_loop.decide_break[where pick = pick, OF example_not_all_assigned(1) p1
          example_pl5[folded dl0]])
  then show ?thesis
    by (simp add: cdcl_solve_def example_up0)
qed

lemma example_unassigned_vars:
  "unassigned_vars example_formula new_Assignments = [1, 2]"
  "unassigned_vars example_formula example_trail1 = [2]"
  by (simp_all add: unassigned_vars_def get_variables_def example_variables)
    (simp_all add: example_defs)

lemma example_results_differ:
  "(Returned (Some example_trail2), example_learned) \<noteq>
   (Returned (Some example_trail3), example_formula)"
proof -
  have "length (clauses example_learned) \<noteq> length (clauses example_formula)"
    by (simp add: example_learned_def)
  then show ?thesis by auto
qed

lemma random_branching_two_results:
  "cdcl_solve pick_branching_variable example_formula
     (Returned (Some example_trail3), example_formula) \<and>
   cdcl_solve pick_branching_variable example_formula
     (Returned (Some example_trail2), example_learned)"
proof -
  have "cdcl_solve pick_branching_variable example_formula
     (Returned (Some example_trail3), example_formula)"
    by (rule example_run_true)
      (simp_all add: pick_branching_variable_def example_unassigned_vars)
  with example_run show ?thesis by blast
qed

subsection \<open>A conflict at level 0\<close>

lemma scan_clauses_empty_clause:
  "c \<in> set cs \<Longrightarrow> literals c = [] \<Longrightarrow> \<exists>d A' fin'. scan_clauses cs A fin = (Some d, A', fin')"
proof (induction cs arbitrary: A fin)
  case Nil
  then show ?case by simp
next
  case (Cons e cs)
  show ?case
  proof (cases "e = c")
    case True
    with Cons.prems show ?thesis by simp
  next
    case False
    with Cons.prems have "c \<in> set cs" by simp
    from Cons.IH[OF this Cons.prems(2)] show ?thesis
      by (auto split: prod.splits option.splits)
  qed
qed

lemma unit_propagation_empty_clause:
  assumes "c \<in> set (clauses formula)" "literals c = []"
  shows "fst (fst (unit_propagation formula A)) = ''conflict''"
proof -
  from scan_clauses_empty_clause[OF assms]
  obtain d A' fin' where "scan_clauses (clauses formula) A True = (Some d, A', fin')" by blast
  then show ?thesis by (simp add: unit_propagation.simps[of formula A])
qed

lemma cdcl_solve_initial_conflict:
  "fst (fst (unit_propagation formula new_Assignments)) = ''conflict'' \<Longrightarrow>
     cdcl_solve pick formula result = (result = (Returned None, formula))"
  by (auto simp: cdcl_solve_def split: prod.splits)

text \<open>
  C5. When the first propagation, on the empty trail at level 0, reports a conflict,
  \<open>cdcl_solve\<close> returns no assignment and leaves the formula as it was, whatever the
  branching heuristic, which is never asked. A formula with an empty clause is such a
  formula, and so is \<open>(1) \<and> (\<not>1)\<close>.
\<close>

theorem level0_conflict_unsat:
  "(fst (fst (unit_propagation formula new_Assignments)) = ''conflict'' \<longrightarrow>
      cdcl_solve pick formula result = (result = (Returned None, formula))) \<and>
   ((\<exists>c \<in> set (clauses formula). literals c = []) \<longrightarrow>
      cdcl_solve pick formula result = (result = (Returned None, formula))) \<and>
   cdcl_solve pick (mk_Formula [dimacs_clause [1], dimacs_clause [- 1]]) result =
     (result = (Returned None, mk_Formula [dimacs_clause [1], dimacs_clause [- 1]]))"
proof (intro conjI impI)
  assume "fst (fst (unit_propagation formula new_Assignments)) = ''conflict''"
  then show "cdcl_solve pick formula result = (result = (Returned None, formula))"
    by (rule cdcl_solve_initial_conflict)
next
  assume "\<exists>c \<in> set (clauses formula). literals c = []"
  then have "fst (fst (unit_propagation formula new_Assignments)) = ''conflict''"
    by (auto intro: unit_propagation_empty_clause)
  then show "cdcl_solve pick formula result = (result = (Returned None, formula))"
    by (rule cdcl_solve_initial_conflict)
next
  have "fst (fst (unit_propagation (mk_Formula [dimacs_clause [1], dimacs_clause [- 1]])
      new_Assignments)) = ''conflict''"
    by (simp add: unit_propagation.simps mk_Formula_def new_Assignments_def assign_def
        value_asg_def dimacs_clause_def dimacs_literal_def)
  then show "cdcl_solve pick (mk_Formula [dimacs_clause [1], dimacs_clause [- 1]]) result =
     (result = (Returned None, mk_Formula [dimacs_clause [1], dimacs_clause [- 1]]))"
    by (rule cdcl_solve_initial_conflict)
qed

theorem level0_conflict_unsat_witness:
  "fst (fst (unit_propagation (mk_Formula [dimacs_clause [1, 2], dimacs_clause [- 2], dimacs_clause [2]])
      new_Assignments)) = ''conflict'' \<and>
   cdcl_solve pick_branching_variable
     (mk_Formula [dimacs_clause [1, 2], dimacs_clause [- 2], dimacs_clause [2]])
     (Returned None, mk_Formula [dimacs_clause [1, 2], dimacs_clause [- 2], dimacs_clause [2]]) \<and>
   dimacs_clause [] \<in> set (clauses (mk_Formula [dimacs_clause [1, 2], dimacs_clause []])) \<and>
   literals (dimacs_clause []) = [] \<and>
   cdcl_solve pick_branching_variable (mk_Formula [dimacs_clause [1, 2], dimacs_clause []])
     (Returned None, mk_Formula [dimacs_clause [1, 2], dimacs_clause []])"
proof -
  let ?F = "mk_Formula [dimacs_clause [1, 2], dimacs_clause [- 2], dimacs_clause [2]]"
  let ?G = "mk_Formula [dimacs_clause [1, 2], dimacs_clause []]"
  have c: "fst (fst (unit_propagation ?F new_Assignments)) = ''conflict''"
    by (simp add: unit_propagation.simps mk_Formula_def new_Assignments_def assign_def
        value_asg_def dimacs_clause_def dimacs_literal_def)
  have e: "dimacs_clause [] \<in> set (clauses ?G)" "literals (dimacs_clause []) = []"
    by (simp_all add: mk_Formula_def dimacs_clause_def)
  then have ex: "\<exists>c \<in> set (clauses ?G). literals c = []" by blast
  from level0_conflict_unsat [of ?F pick_branching_variable "(Returned None, ?F)"] c
  have "cdcl_solve pick_branching_variable ?F (Returned None, ?F)" by blast
  moreover
  from level0_conflict_unsat [of ?G pick_branching_variable "(Returned None, ?G)"] ex
  have "cdcl_solve pick_branching_variable ?G (Returned None, ?G)" by blast
  ultimately show ?thesis using c e by blast
qed

subsection \<open>The clause database only grows\<close>

lemma propagate_loop_round:
  assumes "unit_propagation formula A = ((reason, clause), B)"
  shows "propagate_loop formula A =
     (if reason \<noteq> ''conflict'' then (Break, formula, B)
      else (case clause of
              None \<Rightarrow> (Bad_optional_access, formula, B)
            | Some c \<Rightarrow>
                if dl B = 0 then (Return_nullopt, formula, B)
                else if dl B - 1 < 0 then (Return_nullopt, formula, B)
                else propagate_loop (formula\<lparr>clauses := clauses formula @ [c]\<rparr>)
                       ((backtrack B (dl B - 1))\<lparr>dl := dl B - 1\<rparr>)))"
  by (subst propagate_loop.simps) (simp add: assms conflict_analysis_def split: option.splits)

lemma dom_backtrack: "dom (assignments (backtrack A b)) \<subseteq> dom (assignments A)"
  by (auto simp: backtrack_lookup split: option.splits if_splits)

lemma clause_vars_append_member:
  "c \<in> set cs \<Longrightarrow> clause_vars (cs @ [c]) = clause_vars cs"
  by (auto simp: clause_vars_def)

lemma propagate_loop_invariant:
  "propagate_loop formula A = (e, formula', A') \<Longrightarrow>
     variables formula' = variables formula \<and>
     (\<exists>learned. clauses formula' = clauses formula @ learned \<and>
                set learned \<subseteq> set (clauses formula)) \<and>
     dom (assignments A') \<subseteq> dom (assignments A) \<union> clause_vars (clauses formula) \<and>
     (e = Break \<longrightarrow>
        (\<forall>c \<in> set (clauses formula'). \<not> unit_clause A' c \<and> \<not> fully_falsified A' c)) \<and>
     e \<noteq> Bad_optional_access"
proof (induction formula A rule: propagate_loop.induct)
  case (1 formula A)
  obtain reason clause B where up: "unit_propagation formula A = ((reason, clause), B)"
    by (cases "unit_propagation formula A") auto
  note res = unit_propagation_result[OF up]
  note dm = unit_propagation_dom_dl[OF up]
  note rd = propagate_loop_round[OF up]
  show ?case
  proof (cases "reason = ''conflict''")
    case False
    with rd "1.prems" have "e = Break" "formula' = formula" "A' = B" by simp_all
    with res dm False show ?thesis by simp
  next
    case True
    with res obtain c where c: "clause = Some c" "c \<in> set (clauses formula)" by auto
    show ?thesis
    proof (cases "dl B = 0 \<or> dl B - 1 < 0")
      case stop: True
      with rd True c "1.prems" have "e = Return_nullopt" "formula' = formula" "A' = B"
        by (auto split: if_splits)
      with dm show ?thesis by simp
    next
      case go: False
      let ?F = "formula\<lparr>clauses := clauses formula @ [c]\<rparr>"
      let ?A = "(backtrack B (dl B - 1))\<lparr>dl := dl B - 1\<rparr>"
      from rd True c go "1.prems" have rec: "propagate_loop ?F ?A = (e, formula', A')"
        by simp
      have ca: "conflict_analysis c B = (dl B - 1, c)"
        using go by (simp add: conflict_analysis_def)
      have ih: "variables formula' = variables ?F \<and>
         (\<exists>learned. clauses formula' = clauses ?F @ learned \<and> set learned \<subseteq> set (clauses ?F)) \<and>
         dom (assignments A') \<subseteq> dom (assignments ?A) \<union> clause_vars (clauses ?F) \<and>
         (e = Break \<longrightarrow>
            (\<forall>c \<in> set (clauses formula'). \<not> unit_clause A' c \<and> \<not> fully_falsified A' c)) \<and>
         e \<noteq> Bad_optional_access"
        using "1.IH"[of "(reason, clause)" B reason clause c "dl B - 1" c] up True c go ca rec
        by simp
      from ih obtain learned where l: "clauses formula' = (clauses formula @ [c]) @ learned"
        "set learned \<subseteq> set (clauses formula @ [c])" by auto
      have "clauses formula' = clauses formula @ (c # learned)" using l by simp
      moreover have "set (c # learned) \<subseteq> set (clauses formula)" using l c by auto
      ultimately have p2: "\<exists>learned. clauses formula' = clauses formula @ learned \<and>
                set learned \<subseteq> set (clauses formula)" by blast
      have "dom (assignments ?A) \<subseteq> dom (assignments B)"
        using dom_backtrack[of B "dl B - 1"] by simp
      with ih dm c have p3: "dom (assignments A') \<subseteq> dom (assignments A) \<union> clause_vars (clauses formula)"
        by (simp add: clause_vars_append_member) blast
      from ih p2 p3 show ?thesis by simp
    qed
  qed
qed




subsection \<open>Soundness and totality of a returned assignment\<close>

lemma fold_insert_variables:
  "fold (\<lambda>lit acc. insert (variable lit) acc) ls vs = vs \<union> variable ` set ls"
  by (induction ls arbitrary: vs) auto

lemma fold_insert_clause_variables:
  "fold insert_clause_variables cls vs = vs \<union> clause_vars cls"
  by (induction cls arbitrary: vs)
    (auto simp: clause_vars_def insert_clause_variables_def fold_insert_variables)

lemma variables_mk_Formula: "variables (mk_Formula cls) = clause_vars cls"
  by (simp add: mk_Formula_def fold_insert_clause_variables)

lemma clauses_mk_Formula: "clauses (mk_Formula cls) = cls"
  by (simp add: mk_Formula_def)

lemma pick_branching_variable_in_formula:
  "(var, val) \<in> pick_branching_variable formula A \<Longrightarrow> var \<in> variables formula"
proof -
  assume "(var, val) \<in> pick_branching_variable formula A"
  then have v: "var \<in> set (sorted_list_of_set (variables formula))"
    by (simp add: pick_branching_variable_def unassigned_vars_def get_variables_def)
  show ?thesis
  proof (cases "finite (variables formula)")
    case True
    with v show ?thesis by simp
  next
    case False
    with v show ?thesis by simp
  qed
qed

lemma cdcl_loop_sat:
  assumes pick: "\<And>F B var val. (var, val) \<in> pick F B \<Longrightarrow> var \<in> variables F"
  shows "cdcl_loop pick formula A result \<Longrightarrow>
     finite (variables formula) \<Longrightarrow>
     clause_vars (clauses formula) \<subseteq> variables formula \<Longrightarrow>
     dom (assignments A) \<subseteq> variables formula \<Longrightarrow>
     no_conflict formula A \<Longrightarrow>
     fst result = Returned (Some A') \<Longrightarrow>
       dom (assignments A') = variables formula \<and> no_conflict formula A'"
proof (induction rule: cdcl_loop.induct)
  case (all_assigned formula A)
  from all_assigned.hyps have "card (variables formula) = card (dom (assignments A))"
    by (simp add: all_variables_assigned_def get_variables_def size_asg_def)
  with all_assigned.prems(1,3) have "dom (assignments A) = variables formula"
    by (simp add: card_subset_eq)
  with all_assigned.prems show ?case by simp
next
  case (decide_break formula A var val formula' B result)
  note inv = propagate_loop_invariant[OF decide_break.hyps(3)]
  from inv have vs: "variables formula' = variables formula" by simp
  from inv obtain learned where l: "clauses formula' = clauses formula @ learned"
    "set learned \<subseteq> set (clauses formula)" by auto
  then have st: "set (clauses formula') = set (clauses formula)" by auto
  then have cv: "clause_vars (clauses formula') = clause_vars (clauses formula)"
    by (simp add: clause_vars_def)
  from pick[OF decide_break.hyps(2)] decide_break.prems(3)
  have "dom (assignments (assign (A\<lparr>dl := dl A + 1\<rparr>) var val None)) \<subseteq> variables formula"
    by (simp add: dom_assign)
  with inv decide_break.prems(2) have d: "dom (assignments B) \<subseteq> variables formula'"
    unfolding vs by blast
  from inv have nc: "no_conflict formula' B" by (simp add: no_conflict_def list_all_iff)
  from decide_break.IH[OF _ _ d nc decide_break.prems(5)] decide_break.prems(1,2) vs cv
  have "dom (assignments A') = variables formula' \<and> no_conflict formula' A'" by simp
  with vs st show ?case by (simp add: no_conflict_def list_all_iff)
next
  case (decide_nullopt formula A var val formula' A')
  then show ?case by simp
next
  case (decide_throw formula A var val formula' A')
  then show ?case by simp
qed

lemma cdcl_solve_sat:
  assumes pick: "\<And>F B var val. (var, val) \<in> pick F B \<Longrightarrow> var \<in> variables F"
    and run: "cdcl_solve pick (mk_Formula cls) (Returned (Some A), formula')"
  shows "dom (assignments A) = clause_vars cls" and "no_conflict (mk_Formula cls) A"
proof -
  let ?F = "mk_Formula cls"
  obtain reason clause A0 where up: "unit_propagation ?F new_Assignments = ((reason, clause), A0)"
    by (cases "unit_propagation ?F new_Assignments") auto
  from run up have nc: "reason \<noteq> ''conflict''"
    and loop: "cdcl_loop pick ?F A0 (Returned (Some A), formula')"
    by (auto simp: cdcl_solve_def split: if_splits)
  from unit_propagation_result[OF up] nc have "no_conflict ?F A0"
    by (simp add: no_conflict_def list_all_iff)
  moreover from unit_propagation_dom_dl[OF up]
  have "dom (assignments A0) \<subseteq> variables ?F"
    by (simp add: new_Assignments_def variables_mk_Formula clauses_mk_Formula)
  moreover have "finite (variables ?F)" "clause_vars (clauses ?F) \<subseteq> variables ?F"
    by (simp_all add: variables_mk_Formula clauses_mk_Formula finite_clause_vars)
  ultimately have "dom (assignments A) = variables ?F \<and> no_conflict ?F A"
    using cdcl_loop_sat[of pick ?F A0 "(Returned (Some A), formula')" A] pick loop by simp
  then show "dom (assignments A) = clause_vars cls" and "no_conflict (mk_Formula cls) A"
    by (simp_all add: variables_mk_Formula)
qed

lemma some_literal_true_iff: "some_literal_true A ls = (\<exists>l \<in> set ls. value_asg A l)"
  by (induction ls) auto

lemma satisfy_clauses_iff:
  "satisfy_clauses A cs = (\<forall>c \<in> set cs. \<exists>l \<in> set (literals c). value_asg A l)"
  by (induction cs) (auto simp: some_literal_true_iff)

lemma total_no_conflict_satisfies:
  assumes "dom (assignments A) = clause_vars cls" "no_conflict (mk_Formula cls) A"
    and c: "c \<in> set cls"
  shows "\<exists>l \<in> set (literals c). value_asg A l"
proof -
  from assms(2) c have "\<not> fully_falsified A c"
    by (simp add: no_conflict_def list_all_iff clauses_mk_Formula)
  then obtain l where l: "l \<in> set (literals c)" "\<not> (is_assigned A l \<and> \<not> value_asg A l)"
    by (auto simp: fully_falsified_def list_all_iff)
  from l(1) c have "variable l \<in> clause_vars cls" by (auto simp: clause_vars_def)
  with assms(1) have "is_assigned A l" by (auto simp: is_assigned_def)
  with l show ?thesis by blast
qed

text \<open>
  C1. When \<open>cdcl_solve\<close> returns an assignment for a formula built from a clause list,
  the assignment satisfies the formula as it was built: every original clause has a
  literal that \<open>value\<close> evaluates to true.
\<close>

theorem cdcl_solve_sound:
  "cdcl_solve pick_branching_variable (mk_Formula cls) (Returned (Some A), formula') \<Longrightarrow>
     satisfy A (mk_Formula cls) \<and> (\<forall>c \<in> set cls. \<exists>l \<in> set (literals c). value_asg A l)"
proof -
  assume run: "cdcl_solve pick_branching_variable (mk_Formula cls) (Returned (Some A), formula')"
  have s1: "dom (assignments A) = clause_vars cls"
    by (rule cdcl_solve_sat(1)[where pick = pick_branching_variable, OF _ run])
      (rule pick_branching_variable_in_formula)
  have s2: "no_conflict (mk_Formula cls) A"
    by (rule cdcl_solve_sat(2)[where pick = pick_branching_variable, OF _ run])
      (rule pick_branching_variable_in_formula)
  have "\<forall>c \<in> set cls. \<exists>l \<in> set (literals c). value_asg A l"
    using total_no_conflict_satisfies[OF s1 s2] by blast
  then show ?thesis
    by (simp add: satisfy_def satisfy_clauses_iff clauses_mk_Formula)
qed

theorem cdcl_solve_sound_witness:
  "cdcl_solve pick_branching_variable (mk_Formula [dimacs_clause [1, 2], dimacs_clause [1, - 2]])
     (Returned (Some example_trail2), example_learned) \<and>
   satisfy example_trail2 (mk_Formula [dimacs_clause [1, 2], dimacs_clause [1, - 2]]) \<and>
   value_asg example_trail2 (dimacs_literal 1) \<and>
   \<not> value_asg example_trail2 (dimacs_literal 2) \<and>
   value_asg example_trail2 (dimacs_literal (- 2))"
proof -
  have run: "cdcl_solve pick_branching_variable
      (mk_Formula [dimacs_clause [1, 2], dimacs_clause [1, - 2]])
      (Returned (Some example_trail2), example_learned)"
    using example_run by (simp add: example_formula_def)
  from cdcl_solve_sound [OF run]
  have "satisfy example_trail2 (mk_Formula [dimacs_clause [1, 2], dimacs_clause [1, - 2]])"
    by blast
  moreover have "value_asg example_trail2 (dimacs_literal 1)"
    "\<not> value_asg example_trail2 (dimacs_literal 2)"
    "value_asg example_trail2 (dimacs_literal (- 2))"
    by (simp_all add: example_defs)
  ultimately show ?thesis using run by blast
qed

text \<open>
  C2. When \<open>cdcl_solve\<close> returns an assignment for a formula built from a clause list,
  the variables with an entry are exactly the variables of the formula; the trail is a map,
  so each has one entry.
\<close>

theorem cdcl_solve_total:
  "cdcl_solve pick_branching_variable (mk_Formula cls) (Returned (Some A), formula') \<Longrightarrow>
     dom (assignments A) = get_variables (mk_Formula cls) \<and>
     size_asg A = card (get_variables (mk_Formula cls))"
proof -
  assume run: "cdcl_solve pick_branching_variable (mk_Formula cls) (Returned (Some A), formula')"
  have "dom (assignments A) = clause_vars cls"
    by (rule cdcl_solve_sat(1)[where pick = pick_branching_variable, OF _ run])
      (rule pick_branching_variable_in_formula)
  then show ?thesis by (simp add: get_variables_def variables_mk_Formula size_asg_def)
qed

theorem cdcl_solve_total_witness:
  "cdcl_solve pick_branching_variable (mk_Formula [dimacs_clause [1, 2], dimacs_clause [1, - 2]])
     (Returned (Some example_trail2), example_learned) \<and>
   get_variables (mk_Formula [dimacs_clause [1, 2], dimacs_clause [1, - 2]]) = {1, 2} \<and>
   dom (assignments example_trail2) = {1, 2} \<and>
   size_asg example_trail2 = 2"
proof -
  have run: "cdcl_solve pick_branching_variable
      (mk_Formula [dimacs_clause [1, 2], dimacs_clause [1, - 2]])
      (Returned (Some example_trail2), example_learned)"
    using example_run by (simp add: example_formula_def)
  have v: "get_variables (mk_Formula [dimacs_clause [1, 2], dimacs_clause [1, - 2]]) = {1, 2}"
    using example_variables(1) by (simp add: get_variables_def example_formula_def)
  from cdcl_solve_total [OF run] v
  have "dom (assignments example_trail2) = {1, 2} \<and> size_asg example_trail2 = 2"
    by simp
  with run v show ?thesis by blast
qed

subsection \<open>Determinism for a fixed heuristic\<close>

lemma fold_unassign:
  "fold (\<lambda>var B. unassign B var) xs A =
     A\<lparr>assignments := (\<lambda>var. if var \<in> set xs then None else assignments A var)\<rparr>"
proof (induction xs arbitrary: A)
  case Nil
  then show ?case by simp
next
  case (Cons x xs)
  have "fold (\<lambda>var B. unassign B var) (x # xs) A =
      fold (\<lambda>var B. unassign B var) xs (unassign A x)"
    by simp
  also have "\<dots> = (unassign A x)\<lparr>assignments :=
      (\<lambda>var. if var \<in> set xs then None else assignments (unassign A x) var)\<rparr>"
    by (rule Cons.IH)
  also have "\<dots> = A\<lparr>assignments :=
      (\<lambda>var. if var \<in> set (x # xs) then None else assignments A var)\<rparr>"
    by (simp add: unassign_def fun_eq_iff)
  finally show ?case .
qed

lemma set_collect_to_remove:
  "set order = dom (assignments A) \<Longrightarrow> set (collect_to_remove A b order) = to_remove A b"
  by (auto simp: collect_to_remove_def to_remove_def split: option.splits)

lemma backtrack_in_order_eq:
  "hash_walk A order \<Longrightarrow> backtrack_in_order A b order = backtrack A b"
  by (simp add: hash_walk_def backtrack_in_order_def fold_unassign set_collect_to_remove
      backtrack_def)

lemma cdcl_step_deterministic:
  assumes det: "\<And>formula A x y. x \<in> pick formula A \<Longrightarrow> y \<in> pick formula A \<Longrightarrow> x = y"
  shows "cdcl_step pick c c1 \<Longrightarrow> cdcl_step pick c c2 \<Longrightarrow> c1 = c2"
proof (induction rule: cdcl_step.induct)
  case (start_conflict formula reason clause A)
  from start_conflict.prems start_conflict.hyps show ?case
    by (cases rule: cdcl_step.cases) auto
next
  case (start_loop formula reason clause A)
  from start_loop.prems start_loop.hyps show ?case
    by (cases rule: cdcl_step.cases) auto
next
  case (return_assignments formula A)
  from return_assignments.prems return_assignments.hyps show ?case
    by (cases rule: cdcl_step.cases) auto
next
  case (decide formula A var val)
  from decide.prems decide.hyps show ?case
    by (cases rule: cdcl_step.cases) (auto dest: det)
next
  case (leave_inner formula A reason clause A')
  from leave_inner.prems leave_inner.hyps show ?case
    by (cases rule: cdcl_step.cases) auto
next
  case (throw formula A A')
  from throw.prems throw.hyps show ?case
    by (cases rule: cdcl_step.cases) auto
next
  case (return_nullopt formula A c A' b learned_clause)
  from return_nullopt.prems return_nullopt.hyps show ?case
    by (cases rule: cdcl_step.cases) auto
next
  case (learn formula A c A' b learned_clause order)
  from learn.prems learn.hyps show ?case
    by (cases rule: cdcl_step.cases) (auto simp: backtrack_in_order_eq)
qed

lemma cdcl_run_step:
  "cdcl_step pick a b \<Longrightarrow> rtranclp (cdcl_step pick) b c \<Longrightarrow> rtranclp (cdcl_step pick) a c"
  by (rule converse_rtranclp_into_rtranclp)

lemma finished_no_step: "\<not> cdcl_step pick (Finished r) c"
  by (auto elim: cdcl_step.cases)

lemma finished_run_end: "rtranclp (cdcl_step pick) (Finished r) c \<Longrightarrow> c = Finished r"
  by (erule converse_rtranclpE) (auto simp: finished_no_step)

lemma cdcl_run_prefix:
  assumes det: "\<And>formula A x y. x \<in> pick formula A \<Longrightarrow> y \<in> pick formula A \<Longrightarrow> x = y"
  shows "rtranclp (cdcl_step pick) s c \<Longrightarrow> rtranclp (cdcl_step pick) s (Finished r) \<Longrightarrow>
     rtranclp (cdcl_step pick) c (Finished r)"
proof (induction rule: rtranclp_induct)
  case base
  then show ?case .
next
  case (step y z)
  from step.IH[OF step.prems] show ?case
  proof (cases rule: converse_rtranclpE)
    case base
    with step.hyps(2) show ?thesis by (simp add: finished_no_step)
  next
    case (step y')
    from cdcl_step_deterministic[of pick y y' z] det step(1) \<open>cdcl_step pick y z\<close>
    have "y' = z" by blast
    with step(2) show ?thesis by simp
  qed
qed

lemma finite_dom_backtrack:
  "finite (dom (assignments A)) \<Longrightarrow> finite (dom (assignments (backtrack A b)))"
  using dom_backtrack[of A b] by (rule finite_subset)

lemma propagating_step:
  assumes up: "unit_propagation formula A = ((reason, clause), B)"
    and fin: "finite (dom (assignments B))"
  shows "reason \<noteq> ''conflict'' \<Longrightarrow> cdcl_step pick (Propagating formula A) (Deciding formula B)"
    and "reason = ''conflict'' \<Longrightarrow> clause = None \<Longrightarrow>
       cdcl_step pick (Propagating formula A) (Finished (Thrown_bad_optional_access, formula))"
    and "reason = ''conflict'' \<Longrightarrow> clause = Some c \<Longrightarrow> dl B = 0 \<or> dl B - 1 < 0 \<Longrightarrow>
       cdcl_step pick (Propagating formula A) (Finished (Returned None, formula))"
    and "reason = ''conflict'' \<Longrightarrow> clause = Some c \<Longrightarrow> \<not> (dl B = 0 \<or> dl B - 1 < 0) \<Longrightarrow>
       cdcl_step pick (Propagating formula A)
         (Propagating (formula\<lparr>clauses := clauses formula @ [c]\<rparr>)
            ((backtrack B (dl B - 1))\<lparr>dl := dl B - 1\<rparr>))"
proof -
  show "reason \<noteq> ''conflict'' \<Longrightarrow> cdcl_step pick (Propagating formula A) (Deciding formula B)"
    using up by (rule cdcl_step.leave_inner)
  show "reason = ''conflict'' \<Longrightarrow> clause = None \<Longrightarrow>
       cdcl_step pick (Propagating formula A) (Finished (Thrown_bad_optional_access, formula))"
    using up by (auto intro: cdcl_step.throw)
  show "reason = ''conflict'' \<Longrightarrow> clause = Some c \<Longrightarrow> dl B = 0 \<or> dl B - 1 < 0 \<Longrightarrow>
       cdcl_step pick (Propagating formula A) (Finished (Returned None, formula))"
  proof -
    assume a: "reason = ''conflict''" "clause = Some c" "dl B = 0 \<or> dl B - 1 < 0"
    obtain b l where ca: "conflict_analysis c B = (b, l)" by (cases "conflict_analysis c B") auto
    with a(3) have "b < 0" by (auto simp: conflict_analysis_def split: if_splits)
    with up a ca show ?thesis by (auto intro: cdcl_step.return_nullopt)
  qed
  show "reason = ''conflict'' \<Longrightarrow> clause = Some c \<Longrightarrow> \<not> (dl B = 0 \<or> dl B - 1 < 0) \<Longrightarrow>
       cdcl_step pick (Propagating formula A)
         (Propagating (formula\<lparr>clauses := clauses formula @ [c]\<rparr>)
            ((backtrack B (dl B - 1))\<lparr>dl := dl B - 1\<rparr>))"
  proof -
    assume a: "reason = ''conflict''" "clause = Some c" "\<not> (dl B = 0 \<or> dl B - 1 < 0)"
    from a(3) have ca: "conflict_analysis c B = (dl B - 1, c)"
      by (simp add: conflict_analysis_def)
    from a(3) have nb: "\<not> dl B - 1 < 0" by blast
    from finite_distinct_list[OF fin]
    obtain order where o: "set order = dom (assignments B)" "distinct order"
      by (elim exE conjE)
    then have w: "hash_walk B order" by (simp add: hash_walk_def)
    from up a have up': "unit_propagation formula A = ((''conflict'', Some c), B)" by simp
    from cdcl_step.learn[where pick = pick, OF up' ca nb w]
    show ?thesis by (simp add: backtrack_in_order_eq[OF w])
  qed
qed

lemma propagate_loop_run:
  "propagate_loop formula A = (e, formula', A') \<Longrightarrow> finite (dom (assignments A)) \<Longrightarrow>
     rtranclp (cdcl_step pick) (Propagating formula A) (exit_config e formula' A') \<and>
     finite (dom (assignments A'))"
proof (induction formula A rule: propagate_loop.induct)
  case (1 formula A)
  obtain reason clause B where up: "unit_propagation formula A = ((reason, clause), B)"
    by (cases "unit_propagation formula A") auto
  from unit_propagation_dom_dl[OF up] "1.prems"(2)
  have fin: "finite (dom (assignments B))"
    by (auto intro: finite_subset[of _ "dom (assignments A) \<union> clause_vars (clauses formula)"]
        simp: finite_clause_vars)
  note rd = propagate_loop_round[OF up]
  note st = propagating_step[where pick = pick, OF up fin]
  show ?case
  proof (cases "reason = ''conflict''")
    case False
    with rd "1.prems" have "e = Break" "formula' = formula" "A' = B" by simp_all
    with st(1)[OF False] fin show ?thesis by (simp add: r_into_rtranclp)
  next
    case True
    show ?thesis
    proof (cases clause)
      case None
      with rd True "1.prems" have "e = Bad_optional_access" "formula' = formula" "A' = B"
        by simp_all
      with st(2)[OF True None] fin show ?thesis by (simp add: r_into_rtranclp)
    next
      case (Some c)
      show ?thesis
      proof (cases "dl B = 0 \<or> dl B - 1 < 0")
        case stop: True
        with rd True Some "1.prems" have "e = Return_nullopt" "formula' = formula" "A' = B"
          by (auto split: if_splits)
        with st(3)[OF True Some stop] fin show ?thesis by (simp add: r_into_rtranclp)
      next
        case go: False
        let ?F = "formula\<lparr>clauses := clauses formula @ [c]\<rparr>"
        let ?A = "(backtrack B (dl B - 1))\<lparr>dl := dl B - 1\<rparr>"
        from rd True Some go "1.prems" have rec: "propagate_loop ?F ?A = (e, formula', A')"
          by simp
        have ca: "conflict_analysis c B = (dl B - 1, c)"
          using go by (simp add: conflict_analysis_def)
        have fa: "finite (dom (assignments ?A))"
          using finite_dom_backtrack[OF fin, of "dl B - 1"] by simp
        have "rtranclp (cdcl_step pick) (Propagating ?F ?A) (exit_config e formula' A') \<and>
            finite (dom (assignments A'))"
          using "1.IH"[of "(reason, clause)" B reason clause c "dl B - 1" c] up True Some go ca
            rec fa by simp
        then have "rtranclp (cdcl_step pick) (Propagating ?F ?A) (exit_config e formula' A')"
          and "finite (dom (assignments A'))" by simp_all
        with cdcl_run_step[OF st(4)[OF True Some go]] show ?thesis
          by simp
      qed
    qed
  qed
qed

lemma cdcl_loop_run:
  "cdcl_loop pick formula A r \<Longrightarrow> finite (dom (assignments A)) \<Longrightarrow>
     rtranclp (cdcl_step pick) (Deciding formula A) (Finished r)"
proof (induction rule: cdcl_loop.induct)
  case (all_assigned formula A)
  then show ?case by (simp add: r_into_rtranclp cdcl_step.return_assignments)
next
  case (decide_break formula A var val formula' A' result)
  let ?A = "assign (A\<lparr>dl := dl A + 1\<rparr>) var val None"
  have f: "finite (dom (assignments ?A))" using decide_break.prems by (simp add: dom_assign)
  from propagate_loop_run[OF decide_break.hyps(3) f, of pick]
  have p: "rtranclp (cdcl_step pick) (Propagating formula ?A) (Deciding formula' A')"
    and f': "finite (dom (assignments A'))" by simp_all
  have d: "cdcl_step pick (Deciding formula A) (Propagating formula ?A)"
    by (rule cdcl_step.decide[where pick = pick, OF decide_break.hyps(1,2)])
  from rtranclp_trans[OF p decide_break.IH[OF f']]
  show ?case by (rule cdcl_run_step[OF d])
next
  case (decide_nullopt formula A var val formula' A')
  let ?A = "assign (A\<lparr>dl := dl A + 1\<rparr>) var val None"
  have f: "finite (dom (assignments ?A))" using decide_nullopt.prems by (simp add: dom_assign)
  from propagate_loop_run[OF decide_nullopt.hyps(3) f, of pick]
  have p: "rtranclp (cdcl_step pick) (Propagating formula ?A) (Finished (Returned None, formula'))"
    by simp
  have d: "cdcl_step pick (Deciding formula A) (Propagating formula ?A)"
    by (rule cdcl_step.decide[where pick = pick, OF decide_nullopt.hyps(1,2)])
  from p show ?case by (rule cdcl_run_step[OF d])
next
  case (decide_throw formula A var val formula' A')
  let ?A = "assign (A\<lparr>dl := dl A + 1\<rparr>) var val None"
  have f: "finite (dom (assignments ?A))" using decide_throw.prems by (simp add: dom_assign)
  from propagate_loop_run[OF decide_throw.hyps(3) f, of pick]
  have p: "rtranclp (cdcl_step pick) (Propagating formula ?A)
      (Finished (Thrown_bad_optional_access, formula'))"
    by simp
  have d: "cdcl_step pick (Deciding formula A) (Propagating formula ?A)"
    by (rule cdcl_step.decide[where pick = pick, OF decide_throw.hyps(1,2)])
  from p show ?case by (rule cdcl_run_step[OF d])
qed

lemma cdcl_solve_run:
  assumes "cdcl_solve pick formula r"
  shows "rtranclp (cdcl_step pick) (Start formula) (Finished r)"
proof -
  obtain reason clause A where up: "unit_propagation formula new_Assignments = ((reason, clause), A)"
    by (cases "unit_propagation formula new_Assignments") auto
  show ?thesis
  proof (cases "reason = ''conflict''")
    case True
    with assms up have "r = (Returned None, formula)" by (simp add: cdcl_solve_def)
    with cdcl_step.start_conflict[OF up True, of pick] show ?thesis
      by (simp add: r_into_rtranclp)
  next
    case False
    with assms up have l: "cdcl_loop pick formula A r" by (simp add: cdcl_solve_def)
    from unit_propagation_dom_dl[OF up] have "finite (dom (assignments A))"
      by (auto intro: finite_subset[of _ "clause_vars (clauses formula)"]
          simp: new_Assignments_def finite_clause_vars)
    from cdcl_loop_run[OF l this]
    show ?thesis
      by (rule cdcl_run_step[OF cdcl_step.start_loop[where pick = pick, OF up False]])
  qed
qed

lemma cdcl_step_returns:
  "cdcl_step pick c c' \<Longrightarrow> config_returns pick c' r \<Longrightarrow> config_returns pick c r"
proof (induction rule: cdcl_step.induct)
  case (start_conflict formula reason clause A)
  then show ?case by (simp add: cdcl_solve_def)
next
  case (start_loop formula reason clause A)
  then show ?case by (simp add: cdcl_solve_def)
next
  case (return_assignments formula A)
  then show ?case by (simp add: cdcl_loop.all_assigned)
next
  case (decide formula A var val)
  obtain e formula' A' where pl:
    "propagate_loop formula (assign (A\<lparr>dl := dl A + 1\<rparr>) var val None) = (e, formula', A')"
    by (cases "propagate_loop formula (assign (A\<lparr>dl := dl A + 1\<rparr>) var val None)") auto
  show ?case
  proof (cases e)
    case Break
    with pl decide.prems have "cdcl_loop pick formula' A' r" by simp
    with cdcl_loop.decide_break[where pick = pick, OF decide.hyps pl[unfolded Break]]
    show ?thesis by simp
  next
    case Return_nullopt
    with pl decide.prems have "r = (Returned None, formula')" by simp
    with cdcl_loop.decide_nullopt[where pick = pick, OF decide.hyps pl[unfolded Return_nullopt]]
    show ?thesis by simp
  next
    case Bad_optional_access
    with pl decide.prems have "r = (Thrown_bad_optional_access, formula')" by simp
    with cdcl_loop.decide_throw[where pick = pick, OF decide.hyps pl[unfolded Bad_optional_access]]
    show ?thesis by simp
  qed
next
  case (leave_inner formula A reason clause A')
  from propagate_loop_round[OF leave_inner.hyps(1)] leave_inner.hyps(2) leave_inner.prems
  show ?case by simp
next
  case (throw formula A A')
  from propagate_loop_round[OF throw.hyps(1)] throw.prems
  show ?case by simp
next
  case (return_nullopt formula A c A' b learned_clause)
  from return_nullopt.hyps(2,3) have "dl A' = 0 \<or> dl A' - 1 < 0"
    by (auto simp: conflict_analysis_def split: if_splits)
  with propagate_loop_round[OF return_nullopt.hyps(1)] return_nullopt.prems
  show ?case by auto
next
  case (learn formula A c A' b learned_clause order)
  from learn.hyps(2,3) have b: "\<not> (dl A' = 0 \<or> dl A' - 1 < 0)" "b = dl A' - 1"
    "learned_clause = c"
    by (auto simp: conflict_analysis_def split: if_splits)
  from propagate_loop_round[OF learn.hyps(1)] b
  have "propagate_loop formula A =
      propagate_loop (formula\<lparr>clauses := clauses formula @ [learned_clause]\<rparr>)
        ((backtrack_in_order A' b order)\<lparr>dl := b\<rparr>)"
    by (simp add: backtrack_in_order_eq[OF learn.hyps(4)])
  with learn.prems show ?case by simp
qed

lemma cdcl_run_returns:
  "rtranclp (cdcl_step pick) c (Finished r) \<Longrightarrow> config_returns pick c r"
  by (induction rule: converse_rtranclp_induct) (auto intro: cdcl_step_returns)

lemma cdcl_solve_iff_run:
  "cdcl_solve pick formula r = rtranclp (cdcl_step pick) (Start formula) (Finished r)"
  using cdcl_solve_run[of pick formula r] cdcl_run_returns[of pick "Start formula" r] by auto

text \<open>
  C9. With the branching heuristic replaced by a function of the formula and the trail,
  every configuration of the solver has at most one successor, whatever the order in
  which \<^verbatim>\<open>backtrack\<close> walks the hash map: the heuristic's choice is the only place
  where two runs can part. So when one run returns, every run from the same formula is a
  beginning of it, two runs that return give the same verdict, the same assignment and
  the same final formula, and the same holds of \<open>cdcl_solve\<close>.
\<close>

theorem deterministic_modulo_branching:
  "(cdcl_step (fixed_heuristic h) c c1 \<and> cdcl_step (fixed_heuristic h) c c2 \<longrightarrow> c1 = c2) \<and>
   (rtranclp (cdcl_step (fixed_heuristic h)) (Start formula) c \<and>
    rtranclp (cdcl_step (fixed_heuristic h)) (Start formula) (Finished r1) \<longrightarrow>
      rtranclp (cdcl_step (fixed_heuristic h)) c (Finished r1)) \<and>
   (rtranclp (cdcl_step (fixed_heuristic h)) (Start formula) (Finished r1) \<and>
    rtranclp (cdcl_step (fixed_heuristic h)) (Start formula) (Finished r2) \<longrightarrow> r1 = r2) \<and>
   (cdcl_solve (fixed_heuristic h) formula r1 \<and> cdcl_solve (fixed_heuristic h) formula r2 \<longrightarrow>
      r1 = r2)"
proof -
  let ?pick = "fixed_heuristic h"
  have det: "\<And>formula A x y. x \<in> ?pick formula A \<Longrightarrow> y \<in> ?pick formula A \<Longrightarrow> x = y"
    by (simp add: fixed_heuristic_def)
  have one: "cdcl_step ?pick c c1 \<and> cdcl_step ?pick c c2 \<longrightarrow> c1 = c2"
    using cdcl_step_deterministic[where pick = ?pick, of c c1 c2] det by blast
  have prefix: "\<And>c r. rtranclp (cdcl_step ?pick) (Start formula) c \<Longrightarrow>
      rtranclp (cdcl_step ?pick) (Start formula) (Finished r) \<Longrightarrow>
      rtranclp (cdcl_step ?pick) c (Finished r)"
    using cdcl_run_prefix[where pick = ?pick] det by blast
  have uniq: "\<And>r r'. rtranclp (cdcl_step ?pick) (Start formula) (Finished r) \<Longrightarrow>
      rtranclp (cdcl_step ?pick) (Start formula) (Finished r') \<Longrightarrow> r = r'"
  proof -
    fix r r'
    assume "rtranclp (cdcl_step ?pick) (Start formula) (Finished r)"
      "rtranclp (cdcl_step ?pick) (Start formula) (Finished r')"
    from prefix[OF this] have "Finished r' = Finished r" by (rule finished_run_end)
    then show "r = r'" by simp
  qed
  from one prefix uniq show ?thesis
    by (simp add: cdcl_solve_iff_run)
qed

lemma example_walks:
  "hash_walk (assign (assign (new_Assignments\<lparr>dl := 1\<rparr>) 1 False None) 2 True
      (Some (dimacs_clause [1, 2]))) [1, 2]"
  "hash_walk (assign (assign (new_Assignments\<lparr>dl := 1\<rparr>) 1 False None) 2 True
      (Some (dimacs_clause [1, 2]))) [2, 1]"
  by (auto simp: hash_walk_def assign_def new_Assignments_def)

lemma example_conflict_analysis:
  "conflict_analysis (dimacs_clause [1, - 2])
     (assign (assign (new_Assignments\<lparr>dl := 1\<rparr>) 1 False None) 2 True
        (Some (dimacs_clause [1, 2]))) = (0, dimacs_clause [1, - 2])"
  by (simp add: conflict_analysis_def assign_def new_Assignments_def)

lemma example_learn_step:
  assumes "hash_walk (assign (assign (new_Assignments\<lparr>dl := 1\<rparr>) 1 False None) 2 True
      (Some (dimacs_clause [1, 2]))) order"
  shows "cdcl_step pick
     (Propagating example_formula (assign (new_Assignments\<lparr>dl := 1\<rparr>) 1 False None))
     (Propagating example_learned
        ((backtrack_in_order
            (assign (assign (new_Assignments\<lparr>dl := 1\<rparr>) 1 False None) 2 True
               (Some (dimacs_clause [1, 2]))) 0 order)\<lparr>dl := 0\<rparr>))"
  using cdcl_step.learn[where pick = pick, OF example_up1 example_conflict_analysis _ assms]
  by (simp add: example_learned_def)

theorem deterministic_modulo_branching_witness:
  "cdcl_step (fixed_heuristic (\<lambda>formula A. (hd (unassigned_vars formula A), True)))
     (Propagating example_formula (assign (new_Assignments\<lparr>dl := 1\<rparr>) 1 False None))
     (Propagating example_learned
        ((backtrack_in_order
            (assign (assign (new_Assignments\<lparr>dl := 1\<rparr>) 1 False None) 2 True
               (Some (dimacs_clause [1, 2]))) 0 [1, 2])\<lparr>dl := 0\<rparr>)) \<and>
   cdcl_step (fixed_heuristic (\<lambda>formula A. (hd (unassigned_vars formula A), True)))
     (Propagating example_formula (assign (new_Assignments\<lparr>dl := 1\<rparr>) 1 False None))
     (Propagating example_learned
        ((backtrack_in_order
            (assign (assign (new_Assignments\<lparr>dl := 1\<rparr>) 1 False None) 2 True
               (Some (dimacs_clause [1, 2]))) 0 [2, 1])\<lparr>dl := 0\<rparr>)) \<and>
   Propagating example_learned
        ((backtrack_in_order
            (assign (assign (new_Assignments\<lparr>dl := 1\<rparr>) 1 False None) 2 True
               (Some (dimacs_clause [1, 2]))) 0 [1, 2])\<lparr>dl := 0\<rparr>) =
   Propagating example_learned
        ((backtrack_in_order
            (assign (assign (new_Assignments\<lparr>dl := 1\<rparr>) 1 False None) 2 True
               (Some (dimacs_clause [1, 2]))) 0 [2, 1])\<lparr>dl := 0\<rparr>) \<and>
   rtranclp (cdcl_step (fixed_heuristic (\<lambda>formula A. (hd (unassigned_vars formula A), True))))
     (Start example_formula) (Deciding example_formula new_Assignments) \<and>
   cdcl_solve (fixed_heuristic (\<lambda>formula A. (hd (unassigned_vars formula A), True)))
     example_formula (Returned (Some example_trail3), example_formula) \<and>
   rtranclp (cdcl_step (fixed_heuristic (\<lambda>formula A. (hd (unassigned_vars formula A), True))))
     (Deciding example_formula new_Assignments)
     (Finished (Returned (Some example_trail3), example_formula)) \<and>
   \<not> cdcl_solve (fixed_heuristic (\<lambda>formula A. (hd (unassigned_vars formula A), True)))
     example_formula (Returned (Some example_trail2), example_learned)"
proof -
  let ?pick = "fixed_heuristic (\<lambda>formula A. (hd (unassigned_vars formula A), True))"
  let ?c = "Propagating example_formula (assign (new_Assignments\<lparr>dl := 1\<rparr>) 1 False None)"
  let ?T = "assign (assign (new_Assignments\<lparr>dl := 1\<rparr>) 1 False None) 2 True
      (Some (dimacs_clause [1, 2]))"
  let ?c1 = "Propagating example_learned ((backtrack_in_order ?T 0 [1, 2])\<lparr>dl := 0\<rparr>)"
  let ?c2 = "Propagating example_learned ((backtrack_in_order ?T 0 [2, 1])\<lparr>dl := 0\<rparr>)"
  let ?r = "(Returned (Some example_trail3), example_formula)"
  let ?r' = "(Returned (Some example_trail2), example_learned)"
  have s1: "cdcl_step ?pick ?c ?c1" by (rule example_learn_step[OF example_walks(1)])
  have s2: "cdcl_step ?pick ?c ?c2" by (rule example_learn_step[OF example_walks(2)])
  have run: "cdcl_solve ?pick example_formula ?r"
    by (rule example_run_true) (simp_all add: fixed_heuristic_def example_unassigned_vars)
  then have full: "rtranclp (cdcl_step ?pick) (Start example_formula) (Finished ?r)"
    by (simp add: cdcl_solve_iff_run)
  have "cdcl_step ?pick (Start example_formula) (Deciding example_formula new_Assignments)"
    by (rule cdcl_step.start_loop[where pick = ?pick, OF example_up0]) simp
  then have part: "rtranclp (cdcl_step ?pick) (Start example_formula)
      (Deciding example_formula new_Assignments)"
    by (rule r_into_rtranclp)
  note d = deterministic_modulo_branching
  from d [where h = "\<lambda>formula A. (hd (unassigned_vars formula A), True)" and c = ?c
      and ?c1.0 = ?c1 and ?c2.0 = ?c2] s1 s2
  have e: "?c1 = ?c2" by blast
  from d [where h = "\<lambda>formula A. (hd (unassigned_vars formula A), True)"
      and formula = example_formula and c = "Deciding example_formula new_Assignments"
      and ?r1.0 = ?r] part full
  have rest: "rtranclp (cdcl_step ?pick) (Deciding example_formula new_Assignments) (Finished ?r)"
    by blast
  have "\<not> cdcl_solve ?pick example_formula ?r'"
  proof
    assume "cdcl_solve ?pick example_formula ?r'"
    with d [where h = "\<lambda>formula A. (hd (unassigned_vars formula A), True)"
      and formula = example_formula and ?r1.0 = ?r' and ?r2.0 = ?r] run example_results_differ
    show False by blast
  qed
  with s1 s2 e part run rest show ?thesis by blast
qed

end
